theory Spec2Isabelle
  imports Complex_Main "HOL-Library.Word" "HOL-Library.Monad_Syntax" "HOL-Library.Char_ord"
    "HOL-Library.List_Lexorder"
begin

unbundle bit_operations_syntax


section \<open>Pixel arrays and the corruption helpers of the test harnesses\<close>

text \<open>
  The harnesses (\<^verbatim>\<open>test_meow_ecc.py\<close>, \<^verbatim>\<open>test_ecc_effectiveness.py\<close>,
  \<^verbatim>\<open>benchmark_ecc.py\<close>, \<^verbatim>\<open>demo_ecc.py\<close>) work on numpy arrays of shape
  \<open>(height, width, channels)\<close> with element type uint8. An array is a flat buffer in
  row-major order together with its shape; the element \<open>[y, x, c]\<close> lives at offset
  \<open>(y * width + x) * channels + c\<close>.
\<close>

type_synonym uint8 = "8 word"

datatype py_error = IndexError | ValueError

record ndarray =
  height :: nat
  width :: nat
  channels :: nat
  data :: "uint8 list"

definition wf_array :: "ndarray \<Rightarrow> bool" where
  "wf_array a \<longleftrightarrow> length (data a) = height a * width a * channels a"

definition offset :: "ndarray \<Rightarrow> nat \<Rightarrow> nat \<Rightarrow> nat \<Rightarrow> nat" where
  "offset a y x c = (y * width a + x) * channels a + c"

definition in_bounds :: "ndarray \<Rightarrow> nat \<Rightarrow> nat \<Rightarrow> nat \<Rightarrow> bool" where
  "in_bounds a y x c \<longleftrightarrow> y < height a \<and> x < width a \<and> c < channels a"

text \<open>\<^verbatim>\<open>img_array[y, x, c]\<close>: numpy checks every axis and raises IndexError.\<close>

definition getitem :: "ndarray \<Rightarrow> nat \<Rightarrow> nat \<Rightarrow> nat \<Rightarrow> py_error + uint8" where
  "getitem a y x c =
     (if in_bounds a y x c then Inr (data a ! offset a y x c) else Inl IndexError)"

text \<open>\<^verbatim>\<open>img_array[y, x, c] = v\<close>, written into the buffer itself.\<close>

definition setitem :: "ndarray \<Rightarrow> nat \<Rightarrow> nat \<Rightarrow> nat \<Rightarrow> uint8 \<Rightarrow> py_error + ndarray" where
  "setitem a y x c v =
     (if in_bounds a y x c then Inr (a\<lparr>data := (data a)[offset a y x c := v]\<rparr>)
      else Inl IndexError)"

text \<open>
  Python's \<^verbatim>\<open>int(q)\<close> truncates towards zero. The corruption rate is a float in the
  source; it is taken here as an exact rational, so the rounding of the floating-point
  product \<^verbatim>\<open>height * width * corruption_rate\<close> is not part of the model.
\<close>

definition py_int :: "rat \<Rightarrow> int" where
  "py_int q = (if 0 \<le> q then \<lfloor>q\<rfloor> else \<lceil>q\<rceil>)"

text \<open>
  \<^verbatim>\<open>num_pixels = int(height * width * corruption_rate)\<close> and \<^verbatim>\<open>range(num_pixels)\<close>:
  a negative bound gives no iteration.
\<close>

definition num_pixels_to_corrupt :: "ndarray \<Rightarrow> rat \<Rightarrow> nat" where
  "num_pixels_to_corrupt a corruption_rate =
     nat (py_int (of_nat (height a) * of_nat (width a) * corruption_rate))"

subsection \<open>The random sources\<close>

text \<open>
  The helpers draw from the process's random generator. The outcomes of the calls of one
  loop iteration are one draw; the generator is the stream of the draws still to come.
  Index 0 is the next draw, and consuming a draw shifts the stream by one.
\<close>

record draw =
  rand_y :: nat     \<comment> \<open>\<^verbatim>\<open>random.randint(0, height - 1)\<close>\<close>
  rand_x :: nat     \<comment> \<open>\<^verbatim>\<open>random.randint(0, width - 1)\<close>\<close>
  rand_c :: nat     \<comment> \<open>\<^verbatim>\<open>random.randint(0, 2)\<close>\<close>
  rand_u :: rat     \<comment> \<open>\<^verbatim>\<open>random.random()\<close>\<close>

record np_draw =
  np_y :: nat       \<comment> \<open>\<^verbatim>\<open>np.random.randint(0, height)\<close>\<close>
  np_x :: nat       \<comment> \<open>\<^verbatim>\<open>np.random.randint(0, width)\<close>\<close>
  np_c :: nat       \<comment> \<open>\<^verbatim>\<open>np.random.randint(0, 3)\<close>\<close>
  np_mask :: nat    \<comment> \<open>\<^verbatim>\<open>np.random.randint(1, 4)\<close>\<close>

type_synonym 'd rng = "nat \<Rightarrow> 'd"

definition next_draw :: "'d rng \<Rightarrow> 'd \<times> 'd rng" where
  "next_draw g = (g 0, \<lambda>i. g (Suc i))"

definition advance :: "nat \<Rightarrow> 'd rng \<Rightarrow> 'd rng" where
  "advance n g = (\<lambda>i. g (i + n))"

text \<open>What the library promises about each outcome.\<close>

definition draw_ok :: "ndarray \<Rightarrow> draw \<Rightarrow> bool" where
  "draw_ok a d \<longleftrightarrow>
     rand_y d < height a \<and> rand_x d < width a \<and> rand_c d \<le> 2 \<and> 0 \<le> rand_u d \<and> rand_u d < 1"

definition np_draw_ok :: "ndarray \<Rightarrow> np_draw \<Rightarrow> bool" where
  "np_draw_ok a d \<longleftrightarrow>
     np_y d < height a \<and> np_x d < width a \<and> np_c d < 3 \<and> 1 \<le> np_mask d \<and> np_mask d < 4"

definition rng_ok :: "('d \<Rightarrow> bool) \<Rightarrow> nat \<Rightarrow> 'd rng \<Rightarrow> bool" where
  "rng_ok ok n g \<longleftrightarrow> (\<forall>i<n. ok (g i))"

subsection \<open>\<^verbatim>\<open>corrupt_lsb_data\<close> of test_meow_ecc.py and test_ecc_effectiveness.py\<close>

text \<open>
  One iteration of the loop body. The result is the array after the iteration, or the
  exception that ended it.
\<close>

definition corrupt_step :: "ndarray \<Rightarrow> draw \<Rightarrow> py_error + ndarray" where
  "corrupt_step a d =
     (let y = rand_y d; x = rand_x d; c = rand_c d in
      case getitem a y x c of
        Inl e \<Rightarrow> Inl e
      | Inr pixel_val \<Rightarrow>
          if rand_u d < 1 / 2 then setitem a y x c (pixel_val XOR 0x01)
          else setitem a y x c (pixel_val XOR 0x03))"

text \<open>
  The loop \<^verbatim>\<open>for _ in range(n)\<close>. It returns the array as the loop left it, the
  exception if one was raised, and the generator after the draws it consumed.
\<close>

fun corrupt_loop :: "nat \<Rightarrow> ndarray \<Rightarrow> draw rng \<Rightarrow> ndarray \<times> py_error option \<times> draw rng" where
  "corrupt_loop 0 a g = (a, None, g)"
| "corrupt_loop (Suc n) a g =
     (case next_draw g of (d, g') \<Rightarrow>
        (case corrupt_step a d of
           Inl e \<Rightarrow> (a, Some e, g')
         | Inr a' \<Rightarrow> corrupt_loop n a' g'))"

subsection \<open>\<^verbatim>\<open>corrupt_lsb_data\<close> of benchmark_ecc.py and \<^verbatim>\<open>corrupt_pixels\<close> of demo_ecc.py\<close>

text \<open>\<^verbatim>\<open>img_array[y, x, c] ^= np.random.randint(1, 4)\<close>\<close>

definition np_corrupt_step :: "ndarray \<Rightarrow> np_draw \<Rightarrow> py_error + ndarray" where
  "np_corrupt_step a d =
     (let y = np_y d; x = np_x d; c = np_c d in
      case getitem a y x c of
        Inl e \<Rightarrow> Inl e
      | Inr v \<Rightarrow> setitem a y x c (v XOR word_of_nat (np_mask d)))"

fun np_corrupt_loop :: "nat \<Rightarrow> ndarray \<Rightarrow> np_draw rng \<Rightarrow> ndarray \<times> py_error option \<times> np_draw rng" where
  "np_corrupt_loop 0 a g = (a, None, g)"
| "np_corrupt_loop (Suc n) a g =
     (case next_draw g of (d, g') \<Rightarrow>
        (case np_corrupt_step a d of
           Inl e \<Rightarrow> (a, Some e, g')
         | Inr a' \<Rightarrow> np_corrupt_loop n a' g'))"

subsection \<open>Arrays as objects: the helpers mutate their argument\<close>

text \<open>
  The helpers receive a reference to an array, write into that array and return the same
  reference. The heap maps references to arrays; \<^verbatim>\<open>img_array.copy()\<close> allocates a new one.
\<close>

type_synonym ref = nat
type_synonym heap = "ref \<rightharpoonup> ndarray"

definition array_copy :: "heap \<Rightarrow> ref \<Rightarrow> ref \<Rightarrow> heap" where
  "array_copy h r r_new = (case h r of None \<Rightarrow> h | Some a \<Rightarrow> h(r_new \<mapsto> a))"

text \<open>
  The result of a call: the heap and generator after it, and the returned reference or the
  exception. A reference to no array cannot be passed in Python; the model raises there.
\<close>

definition corrupt_lsb_data ::
  "heap \<Rightarrow> draw rng \<Rightarrow> ref \<Rightarrow> rat \<Rightarrow> heap \<times> draw rng \<times> (py_error + ref)" where
  "corrupt_lsb_data h g img_array corruption_rate =
     (case h img_array of
        None \<Rightarrow> (h, g, Inl ValueError)
      | Some a \<Rightarrow>
          (case corrupt_loop (num_pixels_to_corrupt a corruption_rate) a g of
             (a', None, g') \<Rightarrow> (h(img_array \<mapsto> a'), g', Inr img_array)
           | (a', Some e, g') \<Rightarrow> (h(img_array \<mapsto> a'), g', Inl e)))"

definition benchmark_corrupt_lsb_data ::
  "heap \<Rightarrow> np_draw rng \<Rightarrow> ref \<Rightarrow> rat \<Rightarrow> heap \<times> np_draw rng \<times> (py_error + ref)" where
  "benchmark_corrupt_lsb_data h g img_array corruption_rate =
     (case h img_array of
        None \<Rightarrow> (h, g, Inl ValueError)
      | Some a \<Rightarrow>
          (case np_corrupt_loop (num_pixels_to_corrupt a corruption_rate) a g of
             (a', None, g') \<Rightarrow> (h(img_array \<mapsto> a'), g', Inr img_array)
           | (a', Some e, g') \<Rightarrow> (h(img_array \<mapsto> a'), g', Inl e)))"

definition corrupt_pixels ::
  "heap \<Rightarrow> np_draw rng \<Rightarrow> ref \<Rightarrow> rat \<Rightarrow> heap \<times> np_draw rng \<times> (py_error + ref)" where
  "corrupt_pixels h g img_array corruption_rate =
     (case h img_array of
        None \<Rightarrow> (h, g, Inl ValueError)
      | Some a \<Rightarrow>
          (case np_corrupt_loop (num_pixels_to_corrupt a corruption_rate) a g of
             (a', None, g') \<Rightarrow> (h(img_array \<mapsto> a'), g', Inr img_array)
           | (a', Some e, g') \<Rightarrow> (h(img_array \<mapsto> a'), g', Inl e)))"

subsection \<open>Notions used to state what the helpers do\<close>

text \<open>The array with the value at one offset replaced by its XOR with a mask.\<close>

definition xor_at :: "ndarray \<Rightarrow> nat \<Rightarrow> uint8 \<Rightarrow> ndarray" where
  "xor_at a i m = a\<lparr>data := (data a)[i := data a ! i XOR m]\<rparr>"

text \<open>
  Same shape, and every value is the old value XOR a mask below 4 (the masks of several
  flips at one position accumulate by XOR and stay below 4).
\<close>

definition lsb_only :: "ndarray \<Rightarrow> ndarray \<Rightarrow> bool" where
  "lsb_only a a' \<longleftrightarrow>
     height a' = height a \<and> width a' = width a \<and> channels a' = channels a \<and>
     length (data a') = length (data a) \<and>
     (\<forall>i<length (data a). \<exists>m\<in>{0, 1, 2, 3}. data a' ! i = data a ! i XOR m)"

text \<open>The offsets at which two arrays differ.\<close>

definition changed :: "ndarray \<Rightarrow> ndarray \<Rightarrow> nat set" where
  "changed a a' = set (filter (\<lambda>i. data a' ! i \<noteq> data a ! i) [0..<length (data a)])"

text \<open>The common shape of the two loops, for the proofs.\<close>

fun gen_loop :: "(ndarray \<Rightarrow> 'd \<Rightarrow> py_error + ndarray) \<Rightarrow> nat \<Rightarrow> ndarray \<Rightarrow> 'd rng
    \<Rightarrow> ndarray \<times> py_error option \<times> 'd rng" where
  "gen_loop step 0 a g = (a, None, g)"
| "gen_loop step (Suc n) a g =
     (case step a (g 0) of
        Inl e \<Rightarrow> (a, Some e, \<lambda>i. g (Suc i))
      | Inr a' \<Rightarrow> gen_loop step n a' (\<lambda>i. g (Suc i)))"

text \<open>Same shape, and every value agrees with the old one on bits 2 to 7.\<close>

definition high_bits_kept :: "ndarray \<Rightarrow> ndarray \<Rightarrow> bool" where
  "high_bits_kept a a' \<longleftrightarrow>
     height a' = height a \<and> width a' = width a \<and> channels a' = channels a \<and>
     length (data a') = length (data a) \<and>
     (\<forall>i<length (data a). drop_bit 2 (data a' ! i) = drop_bit 2 (data a ! i))"

text \<open>The offset a draw selects.\<close>

definition draw_pos :: "ndarray \<Rightarrow> draw \<Rightarrow> nat" where
  "draw_pos a d = offset a (rand_y d) (rand_x d) (rand_c d)"

definition np_draw_pos :: "ndarray \<Rightarrow> np_draw \<Rightarrow> nat" where
  "np_draw_pos a d = offset a (np_y d) (np_x d) (np_c d)"

text \<open>A 2 x 2 RGB array and generators for concrete runs.\<close>

definition sample_array :: ndarray where
  "sample_array = \<lparr>height = 2, width = 2, channels = 3,
     data = [128, 64, 192, 128, 64, 192, 128, 64, 192, 128, 64, 192]\<rparr>"

definition sample_rng :: "draw rng" where
  "sample_rng = (\<lambda>i. if i = 0 then \<lparr>rand_y = 1, rand_x = 0, rand_c = 2, rand_u = 1 / 4\<rparr>
                      else \<lparr>rand_y = 0, rand_x = 1, rand_c = 0, rand_u = 3 / 4\<rparr>)"

definition sample_np_rng :: "np_draw rng" where
  "sample_np_rng = (\<lambda>i. if i = 0 then \<lparr>np_y = 1, np_x = 0, np_c = 2, np_mask = 2\<rparr>
                         else \<lparr>np_y = 0, np_x = 1, np_c = 0, np_mask = 3\<rparr>)"



section \<open>The viewer's Open MEOW action (meow_gui.py)\<close>

text \<open>
  \<^verbatim>\<open>MeowGUI.open_meow\<close> calls two operations of the module \<^verbatim>\<open>meow_format\<close>, whose code
  is not part of the sources at hand: \<^verbatim>\<open>smart_fallback_loader(path)\<close>, which returns an
  image, and \<^verbatim>\<open>MeowFormat.load_steganographic_meow(path)\<close>, which returns a pair of an
  image and the extracted data (a dict or \<^verbatim>\<open>None\<close>). They are parameters of the model,
  together with the construction of an \<^verbatim>\<open>AIMetadata\<close> object from extracted data. Each may
  raise; an exception is its message. \<^verbatim>\<open>data_truthy\<close> is Python's truth value of the
  extracted object (an empty dict is false).
\<close>

record ('img, 'd, 'm) meow_format_module =
  smart_fallback_loader :: "string \<Rightarrow> string + 'img"
  load_steganographic_meow :: "string \<Rightarrow> string + ('img \<times> 'd option)"
  data_truthy :: "'d \<Rightarrow> bool"
  populate_ai_metadata :: "'d \<Rightarrow> 'm \<times> string option"

text \<open>
  An attribute of the viewer object that \<^verbatim>\<open>__init__\<close> does not create:
  \<^verbatim>\<open>extracted_meow_data\<close> exists only once \<^verbatim>\<open>open_meow\<close> has assigned it.
\<close>

datatype 'd attribute = Missing | PyNone | Obj 'd

datatype module_call = FallbackLoad string | StegLoad string

text \<open>
  The viewer's state: the attributes \<^verbatim>\<open>open_meow\<close> reads and writes, what the canvas and
  the metadata panels show, the last error dialog, and the calls made into
  \<^verbatim>\<open>meow_format\<close>. \<open>current_meow\<close> records whether a \<^verbatim>\<open>MeowFormat\<close> object is stored.
  The status line and the layout of the panels are left out.
\<close>

record ('img, 'd, 'm) viewer =
  current_image :: "'img option"
  current_meow :: bool
  ai_metadata :: "'m option"
  extracted_meow_data :: "'d attribute"
  canvas :: "'img option"
  metadata_shown :: "'d option"
  error_box :: "string option"
  module_calls :: "module_call list"

text \<open>The state \<^verbatim>\<open>__init__\<close> leaves.\<close>

definition initial_viewer :: "('img, 'd, 'm) viewer" where
  "initial_viewer = \<lparr>current_image = None, current_meow = False, ai_metadata = None,
     extracted_meow_data = Missing, canvas = None, metadata_shown = None, error_box = None,
     module_calls = []\<rparr>"

text \<open>
  \<^verbatim>\<open>str.lower\<close> on ASCII letters (strings are byte strings here; other letters are left
  as they are) and \<^verbatim>\<open>str.endswith\<close>.
\<close>

definition lower_char :: "char \<Rightarrow> char" where
  "lower_char c = (let n = (of_char c :: nat) in if 65 \<le> n \<and> n \<le> 90 then char_of (n + 32) else c)"

definition py_lower :: "string \<Rightarrow> string" where
  "py_lower s = map lower_char s"

definition endswith :: "string \<Rightarrow> string \<Rightarrow> bool" where
  "endswith s suffix \<longleftrightarrow>
     length suffix \<le> length s \<and> drop (length s - length suffix) s = suffix"

text \<open>\<^verbatim>\<open>display_image(image)\<close> puts the image on the canvas.\<close>

definition display_image :: "('img, 'd, 'm) viewer \<Rightarrow> 'img option \<Rightarrow> ('img, 'd, 'm) viewer" where
  "display_image v img = (case img of None \<Rightarrow> v | Some i \<Rightarrow> v\<lparr>canvas := Some i\<rparr>)"

text \<open>
  \<^verbatim>\<open>update_ai_display\<close> clears the panels and fills them from
  \<^verbatim>\<open>self.extracted_meow_data\<close>, unless that attribute is missing or false, in which case
  the panels say that no AI metadata is available.
\<close>

definition update_ai_display ::
  "('img, 'd, 'm) meow_format_module \<Rightarrow> ('img, 'd, 'm) viewer \<Rightarrow> ('img, 'd, 'm) viewer" where
  "update_ai_display m v =
     (case extracted_meow_data v of
        Obj d \<Rightarrow> if data_truthy m d then v\<lparr>metadata_shown := Some d\<rparr>
                 else v\<lparr>metadata_shown := None\<rparr>
      | _ \<Rightarrow> v\<lparr>metadata_shown := None\<rparr>)"

text \<open>
  The branch of \<^verbatim>\<open>open_meow\<close> taken for a path ending in \<^verbatim>\<open>.meow\<close>. \<open>Inl\<close> carries
  the state at the point where an exception was raised, and its message.
\<close>

definition load_meow_data ::
  "('img, 'd, 'm) meow_format_module \<Rightarrow> ('img, 'd, 'm) viewer \<Rightarrow> string
     \<Rightarrow> (('img, 'd, 'm) viewer \<times> string) + ('img, 'd, 'm) viewer" where
  "load_meow_data m v file_path =
     (let v1 = v\<lparr>current_meow := True, module_calls := module_calls v @ [StegLoad file_path]\<rparr> in
      case load_steganographic_meow m file_path of
        Inl e \<Rightarrow> Inl (v1, e)
      | Inr (img, meow_data) \<Rightarrow>
          (case meow_data of
             None \<Rightarrow> Inr (v1\<lparr>extracted_meow_data := PyNone\<rparr>)
           | Some d \<Rightarrow>
               if data_truthy m d then
                 (let v2 = v1\<lparr>extracted_meow_data := Obj d\<rparr> in
                  case populate_ai_metadata m d of
                    (md, Some e) \<Rightarrow> Inl (v2\<lparr>ai_metadata := Some md\<rparr>, e)
                  | (md, None) \<Rightarrow> Inr (v2\<lparr>ai_metadata := Some md\<rparr>))
               else Inr (v1\<lparr>extracted_meow_data := PyNone\<rparr>)))"

text \<open>
  \<^verbatim>\<open>open_meow\<close>, given the path the file dialog returned (empty when the dialog was
  cancelled).
\<close>

definition open_meow ::
  "('img, 'd, 'm) meow_format_module \<Rightarrow> ('img, 'd, 'm) viewer \<Rightarrow> string \<Rightarrow> ('img, 'd, 'm) viewer" where
  "open_meow m v file_path =
     (if file_path = [] then v
      else
        (let v0 = v\<lparr>module_calls := module_calls v @ [FallbackLoad file_path]\<rparr> in
         case smart_fallback_loader m file_path of
           Inl e \<Rightarrow> v0\<lparr>error_box := Some (''Failed to open MEOW file: '' @ e)\<rparr>
         | Inr img \<Rightarrow>
             (let v1 = v0\<lparr>current_image := Some img\<rparr> in
              case (if endswith (py_lower file_path) ''.meow'' then load_meow_data m v1 file_path
                    else Inr v1) of
                Inl (v2, e) \<Rightarrow> v2\<lparr>error_box := Some (''Failed to open MEOW file: '' @ e)\<rparr>
              | Inr v2 \<Rightarrow> update_ai_display m (display_image v2 (current_image v2)))))"

text \<open>
  \<^verbatim>\<open>open_image\<close>, the action for ordinary images: it opens the file with the imaging
  library (a parameter here) and resets \<^verbatim>\<open>current_meow\<close> and \<^verbatim>\<open>ai_metadata\<close>.
\<close>

definition open_image ::
  "(string \<Rightarrow> string + 'img) \<Rightarrow> ('img, 'd, 'm) meow_format_module \<Rightarrow> ('img, 'd, 'm) viewer \<Rightarrow> string
     \<Rightarrow> ('img, 'd, 'm) viewer" where
  "open_image image_open m v file_path =
     (if file_path = [] then v
      else
        (case image_open file_path of
           Inl e \<Rightarrow> v\<lparr>error_box := Some (''Failed to open image: '' @ e)\<rparr>
         | Inr img \<Rightarrow>
             update_ai_display m
               ((display_image (v\<lparr>current_image := Some img\<rparr>) (Some img))
                  \<lparr>current_meow := False, ai_metadata := None\<rparr>)))"

text \<open>
  A concrete module for running the viewer: every path loads as an image named after it,
  and only \<^verbatim>\<open>cat.meow\<close> carries hidden data. Images, data and metadata objects are
  strings.
\<close>

definition sample_module :: "(string, string, string) meow_format_module" where
  "sample_module = \<lparr>
     smart_fallback_loader = (\<lambda>p. Inr (''image of '' @ p)),
     load_steganographic_meow =
       (\<lambda>p. Inr (''image of '' @ p, if p = ''cat.meow'' then Some ''data of cat.meow'' else None)),
     data_truthy = (\<lambda>d. d \<noteq> []),
     populate_ai_metadata = (\<lambda>d. (''metadata from '' @ d, None))\<rparr>"

text \<open>The calls an action added to the log.\<close>

definition new_calls :: "('img, 'd, 'm) viewer \<Rightarrow> ('img, 'd, 'm) viewer \<Rightarrow> module_call list" where
  "new_calls v v' = drop (length (module_calls v)) (module_calls v')"

section \<open>How the harnesses switch ECC off\<close>







section \<open>The steganographic codec, modelled from its specification\<close>

text \<open>
  The module \<^verbatim>\<open>meow_format\<close> (the class \<^verbatim>\<open>MeowFormat\<close> with
  \<^verbatim>\<open>create_steganographic_meow\<close>, \<^verbatim>\<open>load_steganographic_meow\<close> and
  \<^verbatim>\<open>_extract_hidden_data\<close>, and \<^verbatim>\<open>smart_fallback_loader\<close>) is imported by every source
  file at hand but is not among them. The definitions of this section follow the
  specification's component design instead. Where the specification leaves the wire layout
  open, one layout is fixed and said so.
\<close>

subsection \<open>Bits\<close>

text \<open>
  Modelled from the spec: the missing bit-level helpers of the Bit-Plane Channel Mapper.
  A group of bits is written most-significant bit first.
\<close>

fun nat_to_bits :: "nat \<Rightarrow> nat \<Rightarrow> bool list" where
  "nat_to_bits 0 n = []"
| "nat_to_bits (Suc k) n = odd (n div 2 ^ k) # nat_to_bits k n"

fun bits_to_nat :: "bool list \<Rightarrow> nat" where
  "bits_to_nat [] = 0"
| "bits_to_nat (b # bs) = of_bool b * 2 ^ length bs + bits_to_nat bs"

definition byte_to_bits :: "uint8 \<Rightarrow> bool list" where
  "byte_to_bits b = nat_to_bits 8 (unat b)"

definition bytes_to_bits :: "uint8 list \<Rightarrow> bool list" where
  "bytes_to_bits bs = concat (map byte_to_bits bs)"

text \<open>
  Modelled from the spec: the missing conversion of a bit stream back to bytes. Whole bytes
  only; bits that do not fill a byte are dropped.
\<close>

fun bits_to_bytes :: "nat \<Rightarrow> bool list \<Rightarrow> uint8 list" where
  "bits_to_bytes 0 bits = []"
| "bits_to_bytes (Suc n) bits = word_of_nat (bits_to_nat (take 8 bits)) # bits_to_bytes n (drop 8 bits)"

subsection \<open>Bit-Plane Channel Mapper\<close>

text \<open>
  Modelled from the spec: the missing Bit-Plane Channel Mapper (spec section 4.3). A carrier
  is an RGB pixel buffer; its flat row-major buffer is the traversal order "row-major over
  pixels, channel order Red, Green, Blue".
\<close>

datatype codec_error = CapacityError | FormatError | ECCFailure | IOError

definition carrier_ok :: "ndarray \<Rightarrow> bool" where
  "carrier_ok a \<longleftrightarrow> wf_array a \<and> channels a = 3"

definition capacity :: "ndarray \<Rightarrow> nat \<Rightarrow> nat" where
  "capacity img bitsPerChannel = height img * width img * 3 * bitsPerChannel"

text \<open>
  Modelled from the spec: the missing channel update of the mapper, replacing the lowest \<open>k\<close> bits of a channel value by a group of \<open>k\<close> bits; the higher
  bits are untouched.
\<close>

definition set_low_bits :: "nat \<Rightarrow> uint8 \<Rightarrow> bool list \<Rightarrow> uint8" where
  "set_low_bits k v g = (v AND NOT (mask k)) OR word_of_nat (bits_to_nat g)"

definition low_bits :: "nat \<Rightarrow> uint8 \<Rightarrow> bool list" where
  "low_bits k v = nat_to_bits k (unat v)"

text \<open>
  Modelled from the spec: the missing traversal of the mapper. The specification does not
  say what happens to a last group shorter than \<open>k\<close>; it is filled with zero bits.
\<close>

definition pad_group :: "nat \<Rightarrow> bool list \<Rightarrow> bool list" where
  "pad_group k g = g @ replicate (k - length g) False"

fun write_channels :: "nat \<Rightarrow> uint8 list \<Rightarrow> bool list \<Rightarrow> uint8 list" where
  "write_channels k [] bits = []"
| "write_channels k (v # vs) bits =
     (if bits = [] then v # vs
      else set_low_bits k v (pad_group k (take k bits)) # write_channels k vs (drop k bits))"

fun read_channels :: "nat \<Rightarrow> uint8 list \<Rightarrow> nat \<Rightarrow> bool list" where
  "read_channels k [] n = []"
| "read_channels k (v # vs) n =
     (if n = 0 then [] else take n (low_bits k v) @ read_channels k vs (n - k))"

text \<open>
  Modelled from the spec: the missing operations \<open>write\<close> and \<open>read\<close> of the mapper.
  \<open>write\<close> returns a new buffer or fails before writing anything; \<open>read\<close> of more
  bits than the carrier holds has no result.
\<close>

definition mapper_write :: "nat \<Rightarrow> ndarray \<Rightarrow> bool list \<Rightarrow> codec_error + ndarray" where
  "mapper_write bitsPerChannel img bitstream =
     (if length bitstream > capacity img bitsPerChannel then Inl CapacityError
      else Inr (img\<lparr>data := write_channels bitsPerChannel (data img) bitstream\<rparr>))"

definition mapper_read :: "nat \<Rightarrow> ndarray \<Rightarrow> nat \<Rightarrow> bool list option" where
  "mapper_read bitsPerChannel img nBits =
     (if nBits > capacity img bitsPerChannel then None
      else Some (read_channels bitsPerChannel (data img) nBits))"

subsection \<open>Error-Correcting Codec\<close>

text \<open>
  Modelled from the spec: the missing Error-Correcting Codec (spec section 4.2). The
  Reed-Solomon arithmetic of one block is the external library \<^verbatim>\<open>RSCodec\<close> (the name the
  harnesses reach through \<^verbatim>\<open>meow_format.RSCodec\<close>); it is a parameter: for a number of
  parity symbols, an encoder of one block of data and a decoder of one block, which has no
  result when the block has more errors than the code corrects. The splitting into blocks
  of 255 symbols is the codec's own.
\<close>

record rs_block_code =
  rs_encode :: "uint8 list \<Rightarrow> uint8 list"
  rs_decode :: "uint8 list \<Rightarrow> uint8 list option"

type_synonym rs_library = "nat \<Rightarrow> rs_block_code"

datatype redundancy = NoRedundancy | Low | Medium | High

fun parity_symbols :: "redundancy \<Rightarrow> nat" where
  "parity_symbols NoRedundancy = 0"
| "parity_symbols Low = 16"
| "parity_symbols Medium = 32"
| "parity_symbols High = 64"

text \<open>
  Modelled from the spec: what the missing library promises for a block without
  corruption: the codeword is the data and the parity symbols, and it decodes to the data.
\<close>

definition rs_ok :: "nat \<Rightarrow> rs_block_code \<Rightarrow> bool" where
  "rs_ok p code \<longleftrightarrow>
     (\<forall>b. b \<noteq> [] \<and> length b + p \<le> 255 \<longrightarrow>
        length (rs_encode code b) = length b + p \<and> rs_decode code (rs_encode code b) = Some b)"

fun chunks :: "nat \<Rightarrow> 'a list \<Rightarrow> 'a list list" where
  "chunks n xs = (if n = 0 \<or> xs = [] then [] else take n xs # chunks n (drop n xs))"

declare chunks.simps [simp del]

fun decode_blocks :: "(uint8 list \<Rightarrow> uint8 list option) \<Rightarrow> uint8 list list \<Rightarrow> uint8 list option" where
  "decode_blocks dec [] = Some []"
| "decode_blocks dec (b # bs) =
     (case dec b of
        None \<Rightarrow> None
      | Some d \<Rightarrow> (case decode_blocks dec bs of None \<Rightarrow> None | Some ds \<Rightarrow> Some (d @ ds)))"

text \<open>
  Modelled from the spec: the missing operations \<open>encode\<close> and \<open>decode\<close>. Data
  are split into blocks of 255 minus parity symbols, each protected on its own, and
  \<open>level = none\<close> is the identity transform.
\<close>

definition ecc_encode :: "rs_library \<Rightarrow> redundancy \<Rightarrow> uint8 list \<Rightarrow> uint8 list" where
  "ecc_encode lib level d =
     (if level = NoRedundancy then d
      else concat (map (rs_encode (lib (parity_symbols level)))
                       (chunks (255 - parity_symbols level) d)))"

definition ecc_decode :: "rs_library \<Rightarrow> redundancy \<Rightarrow> uint8 list \<Rightarrow> codec_error + uint8 list" where
  "ecc_decode lib level c =
     (if level = NoRedundancy then Inr c
      else (case decode_blocks (rs_decode (lib (parity_symbols level))) (chunks 255 c) of
              None \<Rightarrow> Inl ECCFailure
            | Some d \<Rightarrow> Inr d))"

text \<open>
  Modelled from the spec: a stand-in for the missing library in concrete runs: every parity symbol is the XOR of the data
  symbols of the block. It detects corruption and corrects none.
\<close>

definition xor_sum :: "uint8 list \<Rightarrow> uint8" where
  "xor_sum b = foldr (XOR) b 0"

definition checksum_code :: rs_library where
  "checksum_code p = \<lparr>
     rs_encode = (\<lambda>b. b @ replicate p (xor_sum b)),
     rs_decode = (\<lambda>c. if p \<le> length c \<and>
                          drop (length c - p) c = replicate p (xor_sum (take (length c - p) c))
                       then Some (take (length c - p) c) else None)\<rparr>"

subsection \<open>Metadata payload\<close>

text \<open>
  Modelled from the spec: the missing payload type (spec section 3). Numbers are exact
  rationals. A mapping is the list of its entries in the order of its keys, without
  duplicate keys.
\<close>

datatype feature_value = Scalar rat | Vector "rat list"

datatype primitive = PBool bool | PNum rat | PStr string

record bounding_box =
  box_class :: string
  bbox :: "rat list"
  confidence :: rat

record ai_annotations =
  object_classes :: "string list"
  bounding_boxes :: "bounding_box list"
  preprocessing_params :: "(string \<times> feature_value) list"
  source :: string
  ai_enhanced :: bool

record generation_record =
  ai_generated :: bool
  service :: string
  platform :: string
  model_version :: string
  generation_time :: string
  prompt :: string
  has_reference_image :: bool
  reference_image_url :: string
  generation_settings :: "(string \<times> primitive) list"
  watermark_detected :: bool
  confidence_score :: rat

record MetadataPayload =
  version :: int
  creation_timestamp :: string
  features :: "(string \<times> feature_value) list"
  annotations :: ai_annotations
  attention_maps :: "(string \<times> rat) list"
  generation :: "generation_record option"

text \<open>
  Modelled from the spec: the missing version gate and payload invariants. The
  specification names one version, 1, in its scenarios; it is the supported one.
\<close>

definition supported_version :: "int \<Rightarrow> bool" where
  "supported_version v \<longleftrightarrow> v = 1"

definition canonical_dict :: "(string \<times> 'v) list \<Rightarrow> bool" where
  "canonical_dict d \<longleftrightarrow> sorted (map fst d) \<and> distinct (map fst d)"

definition valid_box :: "bounding_box \<Rightarrow> bool" where
  "valid_box b \<longleftrightarrow> length (bbox b) = 4 \<and> 0 \<le> confidence b \<and> confidence b \<le> 1"

definition valid_generation :: "generation_record \<Rightarrow> bool" where
  "valid_generation g \<longleftrightarrow>
     canonical_dict (generation_settings g) \<and> 0 \<le> confidence_score g \<and> confidence_score g \<le> 1"

definition valid_payload :: "MetadataPayload \<Rightarrow> bool" where
  "valid_payload p \<longleftrightarrow>
     supported_version (version p) \<and>
     canonical_dict (features p) \<and>
     canonical_dict (preprocessing_params (annotations p)) \<and>
     list_all valid_box (bounding_boxes (annotations p)) \<and>
     canonical_dict (attention_maps p) \<and>
     (case generation p of None \<Rightarrow> True | Some g \<Rightarrow> valid_generation g)"

subsection \<open>Payload Codec\<close>

text \<open>
  Modelled from the spec: the missing Payload Codec (spec section 4.1). The specification
  asks for a deterministic byte encoding with canonical key ordering and fixes no layout;
  the layout here writes the fields in the order of the data model, numbers of elements
  and naturals in base 128 with a continuation bit, strings and lists with their length
  first, and the entries of a mapping sorted by key.
\<close>

type_synonym 'a getter = "uint8 list \<Rightarrow> ('a \<times> uint8 list) option"

fun put_nat :: "nat \<Rightarrow> uint8 list" where
  "put_nat n = (if n < 128 then [word_of_nat n] else word_of_nat (128 + n mod 128) # put_nat (n div 128))"

declare put_nat.simps [simp del]

fun get_nat :: "nat getter" where
  "get_nat [] = None"
| "get_nat (b # bs) =
     (if unat b < 128 then Some (unat b, bs)
      else (case get_nat bs of None \<Rightarrow> None | Some (n, r) \<Rightarrow> Some (unat b - 128 + 128 * n, r)))"

definition put_int :: "int \<Rightarrow> uint8 list" where
  "put_int i = (if i < 0 then 1 # put_nat (nat (- i)) else 0 # put_nat (nat i))"

fun get_int :: "int getter" where
  "get_int [] = None"
| "get_int (s # bs) =
     (if s = 0 then (case get_nat bs of None \<Rightarrow> None | Some (n, r) \<Rightarrow> Some (int n, r))
      else if s = 1 then (case get_nat bs of None \<Rightarrow> None | Some (n, r) \<Rightarrow> Some (- int n, r))
      else None)"

definition put_bool :: "bool \<Rightarrow> uint8 list" where
  "put_bool b = [if b then 1 else 0]"

fun get_bool :: "bool getter" where
  "get_bool [] = None"
| "get_bool (b # bs) = (if b = 0 then Some (False, bs) else if b = 1 then Some (True, bs) else None)"

definition put_rat :: "rat \<Rightarrow> uint8 list" where
  "put_rat q = (case quotient_of q of (n, d) \<Rightarrow> put_int n @ put_nat (nat d))"

definition get_rat :: "rat getter" where
  "get_rat bs =
     (case get_int bs of
        None \<Rightarrow> None
      | Some (n, r) \<Rightarrow>
          (case get_nat r of
             None \<Rightarrow> None
           | Some (d, r') \<Rightarrow> if d = 0 then None else Some (of_int n / of_nat d, r')))"

fun get_many :: "'a getter \<Rightarrow> nat \<Rightarrow> uint8 list \<Rightarrow> ('a list \<times> uint8 list) option" where
  "get_many g 0 bs = Some ([], bs)"
| "get_many g (Suc n) bs =
     (case g bs of
        None \<Rightarrow> None
      | Some (x, r) \<Rightarrow>
          (case get_many g n r of None \<Rightarrow> None | Some (xs, r') \<Rightarrow> Some (x # xs, r')))"

definition put_list :: "('a \<Rightarrow> uint8 list) \<Rightarrow> 'a list \<Rightarrow> uint8 list" where
  "put_list put xs = put_nat (length xs) @ concat (map put xs)"

definition get_list :: "'a getter \<Rightarrow> 'a list getter" where
  "get_list g bs = (case get_nat bs of None \<Rightarrow> None | Some (n, r) \<Rightarrow> get_many g n r)"

definition put_char :: "char \<Rightarrow> uint8 list" where
  "put_char c = [word_of_nat (of_char c)]"

fun get_char :: "char getter" where
  "get_char [] = None"
| "get_char (b # bs) = Some (char_of (unat b), bs)"

definition put_string :: "string \<Rightarrow> uint8 list" where
  "put_string s = put_list put_char s"

definition get_string :: "string getter" where
  "get_string = get_list get_char"

definition put_option :: "('a \<Rightarrow> uint8 list) \<Rightarrow> 'a option \<Rightarrow> uint8 list" where
  "put_option put x = (case x of None \<Rightarrow> [0] | Some v \<Rightarrow> 1 # put v)"

fun get_option :: "'a getter \<Rightarrow> 'a option getter" where
  "get_option g [] = None"
| "get_option g (t # bs) =
     (if t = 0 then Some (None, bs)
      else if t = 1 then (case g bs of None \<Rightarrow> None | Some (v, r) \<Rightarrow> Some (Some v, r))
      else None)"

definition put_entry :: "('v \<Rightarrow> uint8 list) \<Rightarrow> string \<times> 'v \<Rightarrow> uint8 list" where
  "put_entry put e = put_string (fst e) @ put (snd e)"

definition get_entry :: "'v getter \<Rightarrow> (string \<times> 'v) getter" where
  "get_entry g bs =
     (case get_string bs of
        None \<Rightarrow> None
      | Some (k, r) \<Rightarrow> (case g r of None \<Rightarrow> None | Some (v, r') \<Rightarrow> Some ((k, v), r')))"

text \<open>
  Modelled from the spec: the missing encoding of a mapping, with canonical key ordering:
  the entries are written sorted by key.
\<close>

definition put_dict :: "('v \<Rightarrow> uint8 list) \<Rightarrow> (string \<times> 'v) list \<Rightarrow> uint8 list" where
  "put_dict put d = put_list (put_entry put) (sort_key fst d)"

definition get_dict :: "'v getter \<Rightarrow> (string \<times> 'v) list getter" where
  "get_dict g = get_list (get_entry g)"

definition put_feature_value :: "feature_value \<Rightarrow> uint8 list" where
  "put_feature_value v = (case v of Scalar q \<Rightarrow> 0 # put_rat q | Vector qs \<Rightarrow> 1 # put_list put_rat qs)"

fun get_feature_value :: "feature_value getter" where
  "get_feature_value [] = None"
| "get_feature_value (t # bs) =
     (if t = 0 then (case get_rat bs of None \<Rightarrow> None | Some (q, r) \<Rightarrow> Some (Scalar q, r))
      else if t = 1 then
        (case get_list get_rat bs of None \<Rightarrow> None | Some (qs, r) \<Rightarrow> Some (Vector qs, r))
      else None)"

definition put_primitive :: "primitive \<Rightarrow> uint8 list" where
  "put_primitive v =
     (case v of PBool b \<Rightarrow> 0 # put_bool b | PNum q \<Rightarrow> 1 # put_rat q | PStr s \<Rightarrow> 2 # put_string s)"

fun get_primitive :: "primitive getter" where
  "get_primitive [] = None"
| "get_primitive (t # bs) =
     (if t = 0 then (case get_bool bs of None \<Rightarrow> None | Some (b, r) \<Rightarrow> Some (PBool b, r))
      else if t = 1 then (case get_rat bs of None \<Rightarrow> None | Some (q, r) \<Rightarrow> Some (PNum q, r))
      else if t = 2 then (case get_string bs of None \<Rightarrow> None | Some (s, r) \<Rightarrow> Some (PStr s, r))
      else None)"

definition put_box :: "bounding_box \<Rightarrow> uint8 list" where
  "put_box b = put_string (box_class b) @ put_list put_rat (bbox b) @ put_rat (confidence b)"

definition get_box :: "bounding_box getter" where
  "get_box bs = do {
     (c, r1) \<leftarrow> get_string bs;
     (b, r2) \<leftarrow> get_list get_rat r1;
     (cf, r3) \<leftarrow> get_rat r2;
     Some (\<lparr>box_class = c, bbox = b, confidence = cf\<rparr>, r3)
   }"

definition put_annotations :: "ai_annotations \<Rightarrow> uint8 list" where
  "put_annotations a =
     put_list put_string (object_classes a) @ put_list put_box (bounding_boxes a) @
     put_dict put_feature_value (preprocessing_params a) @ put_string (source a) @
     put_bool (ai_enhanced a)"

definition get_annotations :: "ai_annotations getter" where
  "get_annotations bs = do {
     (oc, r1) \<leftarrow> get_list get_string bs;
     (bb, r2) \<leftarrow> get_list get_box r1;
     (pp, r3) \<leftarrow> get_dict get_feature_value r2;
     (src, r4) \<leftarrow> get_string r3;
     (ae, r5) \<leftarrow> get_bool r4;
     Some (\<lparr>object_classes = oc, bounding_boxes = bb, preprocessing_params = pp,
            source = src, ai_enhanced = ae\<rparr>, r5)
   }"

definition put_generation :: "generation_record \<Rightarrow> uint8 list" where
  "put_generation g =
     put_bool (ai_generated g) @ put_string (service g) @ put_string (platform g) @
     put_string (model_version g) @ put_string (generation_time g) @ put_string (prompt g) @
     put_bool (has_reference_image g) @ put_string (reference_image_url g) @
     put_dict put_primitive (generation_settings g) @ put_bool (watermark_detected g) @
     put_rat (confidence_score g)"

definition get_generation :: "generation_record getter" where
  "get_generation bs = do {
     (ag, r1) \<leftarrow> get_bool bs;
     (sv, r2) \<leftarrow> get_string r1;
     (pf, r3) \<leftarrow> get_string r2;
     (mv, r4) \<leftarrow> get_string r3;
     (gt, r5) \<leftarrow> get_string r4;
     (pr, r6) \<leftarrow> get_string r5;
     (hr, r7) \<leftarrow> get_bool r6;
     (ru, r8) \<leftarrow> get_string r7;
     (gs, r9) \<leftarrow> get_dict get_primitive r8;
     (wd, r10) \<leftarrow> get_bool r9;
     (cs, r11) \<leftarrow> get_rat r10;
     Some (\<lparr>ai_generated = ag, service = sv, platform = pf, model_version = mv,
            generation_time = gt, prompt = pr, has_reference_image = hr,
            reference_image_url = ru, generation_settings = gs, watermark_detected = wd,
            confidence_score = cs\<rparr>, r11)
   }"

definition put_payload :: "MetadataPayload \<Rightarrow> uint8 list" where
  "put_payload p =
     put_int (version p) @ put_string (creation_timestamp p) @
     put_dict put_feature_value (features p) @ put_annotations (annotations p) @
     put_dict put_rat (attention_maps p) @ put_option put_generation (generation p)"

definition get_payload :: "MetadataPayload getter" where
  "get_payload bs = do {
     (v, r1) \<leftarrow> get_int bs;
     (ts, r2) \<leftarrow> get_string r1;
     (fs, r3) \<leftarrow> get_dict get_feature_value r2;
     (an, r4) \<leftarrow> get_annotations r3;
     (am, r5) \<leftarrow> get_dict get_rat r4;
     (gr, r6) \<leftarrow> get_option get_generation r5;
     Some (\<lparr>version = v, creation_timestamp = ts, features = fs, annotations = an,
            attention_maps = am, generation = gr\<rparr>, r6)
   }"

definition serialize :: "MetadataPayload \<Rightarrow> uint8 list" where
  "serialize p = put_payload p"

text \<open>
  Modelled from the spec: the missing operations \<open>serialize\<close> and \<open>deserialize\<close>.
  \<open>deserialize\<close> fails with FormatError when the bytes are not an encoded payload, when
  bytes are left over, or when the version is not supported.
\<close>

definition deserialize :: "uint8 list \<Rightarrow> codec_error + MetadataPayload" where
  "deserialize bs =
     (case get_payload bs of
        None \<Rightarrow> Inl FormatError
      | Some (p, rest) \<Rightarrow>
          if rest = [] \<and> supported_version (version p) then Inr p else Inl FormatError)"

subsection \<open>Embedder and Extractor\<close>

text \<open>
  Modelled from the spec: the missing per-call configuration (spec section 6): redundancy
  level, ECC enabled or disabled, bits per channel. With ECC disabled the codec works as
  with no redundancy.
\<close>

record codec_config =
  redundancy_level :: redundancy
  ecc_enabled :: bool
  bitsPerChannel :: nat

definition effective_level :: "codec_config \<Rightarrow> redundancy" where
  "effective_level cfg = (if ecc_enabled cfg then redundancy_level cfg else NoRedundancy)"

definition config_ok :: "codec_config \<Rightarrow> bool" where
  "config_ok cfg \<longleftrightarrow> 0 < bitsPerChannel cfg \<and> bitsPerChannel cfg \<le> 8"

text \<open>
  Modelled from the spec: the missing header framing (spec section 4.4, steps 2 and 3). The
  specification asks for a fixed-width length header and fixes no width; here it is the
  number of bytes of the ECC-encoded body as four bytes, most significant first, and it is
  ECC-encoded on its own, so that its codeword has a fixed length.
\<close>

definition be32 :: "nat \<Rightarrow> uint8 list" where
  "be32 n = bits_to_bytes 4 (nat_to_bits 32 n)"

definition be32_decode :: "uint8 list \<Rightarrow> nat" where
  "be32_decode h = bits_to_nat (bytes_to_bits h)"

definition header_codeword_len :: "redundancy \<Rightarrow> nat" where
  "header_codeword_len level = 4 + parity_symbols level"

definition frame :: "rs_library \<Rightarrow> redundancy \<Rightarrow> MetadataPayload \<Rightarrow> uint8 list" where
  "frame lib level p =
     (let body = ecc_encode lib level (serialize p);
          header = ecc_encode lib level (be32 (length body))
      in header @ body)"

text \<open>
  Modelled from the spec: the missing Embedder (spec section 4.4): serialize, frame,
  ECC-encode, check the capacity, and let the mapper write into a new buffer.
\<close>

definition embed :: "rs_library \<Rightarrow> codec_config \<Rightarrow> ndarray \<Rightarrow> MetadataPayload \<Rightarrow> codec_error + ndarray" where
  "embed lib cfg img p =
     mapper_write (bitsPerChannel cfg) img (bytes_to_bits (frame lib (effective_level cfg) p))"

text \<open>
  Modelled from the spec: the missing Extractor (spec section 4.5), stage by stage, with
  the failure of each stage as a value. A carrier too small for the header or for the
  body the header announces is a malformed one.
\<close>

definition extract_stages :: "rs_library \<Rightarrow> codec_config \<Rightarrow> ndarray \<Rightarrow> codec_error + MetadataPayload" where
  "extract_stages lib cfg img =
     (let level = effective_level cfg; k = bitsPerChannel cfg; hlen = header_codeword_len level in
      case mapper_read k img (8 * hlen) of
        None \<Rightarrow> Inl FormatError
      | Some hbits \<Rightarrow>
          (case ecc_decode lib level (bits_to_bytes hlen hbits) of
             Inl e \<Rightarrow> Inl e
           | Inr h \<Rightarrow>
               if length h \<noteq> 4 then Inl FormatError
               else
                 (let n = be32_decode h in
                  case mapper_read k img (8 * (hlen + n)) of
                    None \<Rightarrow> Inl FormatError
                  | Some bits \<Rightarrow>
                      (case ecc_decode lib level (bits_to_bytes n (drop (8 * hlen) bits)) of
                         Inl e \<Rightarrow> Inl e
                       | Inr body \<Rightarrow> deserialize body))))"

text \<open>
  Modelled from the spec: the missing operation \<open>extract(image)\<close>: the payload, or
  absent for every failure of a stage.
\<close>

definition extract_payload :: "rs_library \<Rightarrow> codec_config \<Rightarrow> ndarray \<Rightarrow> MetadataPayload option" where
  "extract_payload lib cfg img = (case extract_stages lib cfg img of Inl e \<Rightarrow> None | Inr p \<Rightarrow> Some p)"

text \<open>
  Modelled from the spec: the contract of the missing library, asked for at the level in
  force only (no redundancy does not use the library).
\<close>

definition library_ok :: "rs_library \<Rightarrow> redundancy \<Rightarrow> bool" where
  "library_ok lib level \<longleftrightarrow>
     (level \<noteq> NoRedundancy \<longrightarrow> rs_ok (parity_symbols level) (lib (parity_symbols level)))"

subsection \<open>Buffers as objects\<close>




subsection \<open>Files and the Fallback Loader\<close>

text \<open>
  Modelled from the spec: the missing file operations (spec sections 4.6 and 6). The
  container is lossless, so a file that is a valid image holds its pixel buffer; any other
  file holds bytes. A path may be writable or not.
\<close>

datatype stored_file = ImageFile ndarray | OtherFile "uint8 list"





subsection \<open>Concrete carriers, payloads and configurations\<close>

text \<open>
  The payload of the specification's scenarios,
  \<^verbatim>\<open>{version: 1, features: {dimensions: [200, 200]}}\<close>, and one with a creation date.
\<close>

definition no_annotations :: ai_annotations where
  "no_annotations = \<lparr>object_classes = [], bounding_boxes = [], preprocessing_params = [],
     source = [], ai_enhanced = False\<rparr>"

definition scenario_payload :: MetadataPayload where
  "scenario_payload = \<lparr>version = 1, creation_timestamp = [],
     features = [(''dimensions'', Vector [200, 200])], annotations = no_annotations,
     attention_maps = [], generation = None\<rparr>"

definition dated_payload :: MetadataPayload where
  "dated_payload = scenario_payload\<lparr>creation_timestamp := ''26''\<rparr>"

text \<open>A carrier of one colour.\<close>

definition plain_carrier :: "nat \<Rightarrow> nat \<Rightarrow> ndarray" where
  "plain_carrier h w = \<lparr>height = h, width = w, channels = 3, data = replicate (h * w * 3) 128\<rparr>"

definition high_config :: codec_config where
  "high_config = \<lparr>redundancy_level = High, ecc_enabled = True, bitsPerChannel = 2\<rparr>"




section \<open>Properties of the corruption helpers\<close>

lemma drop_bit_xor_small:
  fixes v m :: uint8
  assumes "m \<in> {0, 1, 2, 3}"
  shows "drop_bit 2 (v XOR m) = drop_bit 2 v"
  using assms by (auto simp: drop_bit_xor)

lemma small_xor_closed:
  fixes m n :: uint8
  assumes "m \<in> {0, 1, 2, 3}" "n \<in> {0, 1, 2, 3}"
  shows "m XOR n \<in> {0, 1, 2, 3}"
  using assms by auto

lemma lsb_only_refl: "lsb_only a a"
proof -
  have "\<exists>m\<in>{0, 1, 2, 3}. v = v XOR m" for v :: uint8
    by (rule bexI [of _ 0]) simp_all
  then show ?thesis unfolding lsb_only_def by blast
qed

lemma lsb_only_xor_at:
  assumes "m \<in> {0, 1, 2, 3}"
  shows "lsb_only a (xor_at a i m)"
proof -
  have "\<exists>k\<in>{0, 1, 2, 3}. (data a)[i := data a ! i XOR m] ! j = data a ! j XOR k"
    if "j < length (data a)" for j
  proof (cases "j = i")
    case True
    with that have "(data a)[i := data a ! i XOR m] ! j = data a ! j XOR m" by simp
    with assms show ?thesis by blast
  next
    case False
    then have "(data a)[i := data a ! i XOR m] ! j = data a ! j XOR 0" by simp
    then show ?thesis by blast
  qed
  then show ?thesis unfolding lsb_only_def xor_at_def by simp
qed

lemma lsb_only_trans:
  assumes ab: "lsb_only a b" and bc: "lsb_only b c"
  shows "lsb_only a c"
proof -
  have len: "length (data b) = length (data a)" using ab by (simp add: lsb_only_def)
  have "\<exists>m\<in>{0, 1, 2, 3}. data c ! i = data a ! i XOR m" if i: "i < length (data a)" for i
  proof -
    from ab i obtain m where m: "m \<in> {0, 1, 2, 3}" "data b ! i = data a ! i XOR m"
      unfolding lsb_only_def by blast
    from bc i len obtain n where n: "n \<in> {0, 1, 2, 3}" "data c ! i = data b ! i XOR n"
      unfolding lsb_only_def by force
    have "data c ! i = data a ! i XOR (m XOR n)" using m n by (simp add: xor.assoc)
    moreover have "m XOR n \<in> {0, 1, 2, 3}" using m(1) n(1) by (rule small_xor_closed)
    ultimately show ?thesis by blast
  qed
  then show ?thesis using ab bc unfolding lsb_only_def by simp
qed

lemma lsb_only_high_bits:
  assumes "lsb_only a a'" "i < length (data a)"
  shows "drop_bit 2 (data a' ! i) = drop_bit 2 (data a ! i)"
proof -
  from assms obtain m where "m \<in> {0, 1, 2, 3}" "data a' ! i = data a ! i XOR m"
    unfolding lsb_only_def by blast
  then show ?thesis by (simp only: drop_bit_xor_small)
qed

lemma corrupt_step_xor:
  assumes "draw_ok a d" "3 \<le> channels a"
  shows "\<exists>m\<in>{1, 3}. corrupt_step a d = Inr (xor_at a (offset a (rand_y d) (rand_x d) (rand_c d)) m)"
  using assms
  by (auto simp: corrupt_step_def draw_ok_def getitem_def setitem_def in_bounds_def xor_at_def Let_def)

lemma np_corrupt_step_xor:
  assumes "np_draw_ok a d" "3 \<le> channels a"
  shows "\<exists>m\<in>{1, 2, 3}. np_corrupt_step a d = Inr (xor_at a (offset a (np_y d) (np_x d) (np_c d)) m)"
proof -
  from assms(1) have "np_mask d = 1 \<or> np_mask d = 2 \<or> np_mask d = 3"
    unfolding np_draw_ok_def by arith
  then have "(word_of_nat (np_mask d) :: uint8) \<in> {1, 2, 3}" by auto
  moreover have "np_corrupt_step a d = Inr (xor_at a (offset a (np_y d) (np_x d) (np_c d)) (word_of_nat (np_mask d)))"
    using assms
    by (simp add: np_corrupt_step_def np_draw_ok_def getitem_def setitem_def in_bounds_def xor_at_def Let_def)
  ultimately show ?thesis by blast
qed

lemma corrupt_loop_gen: "corrupt_loop n a g = gen_loop corrupt_step n a g"
  by (induction n arbitrary: a g) (simp_all add: next_draw_def split: sum.splits)

lemma np_corrupt_loop_gen: "np_corrupt_loop n a g = gen_loop np_corrupt_step n a g"
  by (induction n arbitrary: a g) (simp_all add: next_draw_def split: sum.splits)

lemma changed_iff: "i \<in> changed a a' \<longleftrightarrow> i < length (data a) \<and> data a' ! i \<noteq> data a ! i"
  by (auto simp: changed_def)

lemma changed_xor_at: "changed a (xor_at a p m) \<subseteq> {p}"
proof
  fix i assume "i \<in> changed a (xor_at a p m)"
  then have "(data a)[p := data a ! p XOR m] ! i \<noteq> data a ! i"
    by (simp add: changed_iff xor_at_def)
  then have "i = p" by (cases "i = p") simp_all
  then show "i \<in> {p}" by simp
qed

lemma changed_trans:
  assumes "length (data b) = length (data a)"
  shows "changed a c \<subseteq> changed a b \<union> changed b c"
  using assms by (auto simp: changed_iff)

lemma advance_Suc: "advance n (\<lambda>i. g (Suc i)) = advance (Suc n) g"
  by (simp add: advance_def)

lemma advance_0: "advance 0 g = g"
  by (simp add: advance_def)

lemma gen_loop_flips:
  assumes "\<And>b i. lsb_only a b \<Longrightarrow> i < n \<Longrightarrow> \<exists>m\<in>{1, 2, 3}. step b (g i) = Inr (xor_at b (pos (g i)) m)"
  shows "\<exists>a'. gen_loop step n a g = (a', None, advance n g) \<and> lsb_only a a' \<and>
           changed a a' \<subseteq> (\<lambda>i. pos (g i)) ` {..<n}"
  using assms
proof (induction n arbitrary: a g)
  case 0
  have "changed a a = {}" by (auto simp: changed_iff)
  then show ?case by (simp add: advance_0 lsb_only_refl)
next
  case (Suc n)
  from Suc.prems [OF lsb_only_refl, of 0]
  obtain m where m: "m \<in> {1, 2, 3}" and st: "step a (g 0) = Inr (xor_at a (pos (g 0)) m)"
    by auto
  define a1 where "a1 = xor_at a (pos (g 0)) m"
  define g1 where "g1 = (\<lambda>i. g (Suc i))"
  have a_a1: "lsb_only a a1" unfolding a1_def using m by (intro lsb_only_xor_at) auto
  have "\<exists>m\<in>{1, 2, 3}. step b (g1 i) = Inr (xor_at b (pos (g1 i)) m)"
    if "lsb_only a1 b" "i < n" for b i
    unfolding g1_def using Suc.prems [of b "Suc i"] lsb_only_trans [OF a_a1 that(1)] that(2)
    by simp
  from Suc.IH [of a1 g1, OF this]
  obtain a' where a': "gen_loop step n a1 g1 = (a', None, advance n g1)" "lsb_only a1 a'"
    "changed a1 a' \<subseteq> (\<lambda>i. pos (g1 i)) ` {..<n}" by blast
  have run: "gen_loop step (Suc n) a g = (a', None, advance (Suc n) g)"
    using st a'(1) by (simp add: a1_def g1_def advance_Suc)
  have rel: "lsb_only a a'" using a_a1 a'(2) by (rule lsb_only_trans)
  have "length (data a1) = length (data a)" using a_a1 by (simp add: lsb_only_def)
  then have "changed a a' \<subseteq> changed a a1 \<union> changed a1 a'" by (rule changed_trans)
  also have "\<dots> \<subseteq> {pos (g 0)} \<union> (\<lambda>i. pos (g1 i)) ` {..<n}"
    using changed_xor_at [of a "pos (g 0)" m] a'(3) unfolding a1_def by blast
  also have "\<dots> \<subseteq> (\<lambda>i. pos (g i)) ` {..<Suc n}"
  proof
    fix p assume "p \<in> {pos (g 0)} \<union> (\<lambda>i. pos (g1 i)) ` {..<n}"
    then consider "p = pos (g 0)" | i where "i < n" "p = pos (g (Suc i))"
      unfolding g1_def by auto
    then show "p \<in> (\<lambda>i. pos (g i)) ` {..<Suc n}"
    proof cases
      case 1
      then show ?thesis by (intro image_eqI [of _ _ 0]) simp_all
    next
      case 2
      then show ?thesis by (intro image_eqI [of _ _ "Suc i"]) simp_all
    qed
  qed
  finally show ?case using run rel by blast
qed

lemma lsb_only_high_bits_kept: "lsb_only a a' \<Longrightarrow> high_bits_kept a a'"
  unfolding high_bits_kept_def using lsb_only_high_bits [of a a']
  by (simp add: lsb_only_def)

lemma draw_ok_shape: "lsb_only a b \<Longrightarrow> draw_ok b d = draw_ok a d"
  by (simp add: lsb_only_def draw_ok_def)

lemma np_draw_ok_shape: "lsb_only a b \<Longrightarrow> np_draw_ok b d = np_draw_ok a d"
  by (simp add: lsb_only_def np_draw_ok_def)

lemma offset_shape: "lsb_only a b \<Longrightarrow> offset b y x c = offset a y x c"
  by (simp add: lsb_only_def offset_def)

lemma corrupt_loop_flips:
  assumes ok: "rng_ok (draw_ok a) n g" and ch: "3 \<le> channels a"
  shows "\<exists>a'. corrupt_loop n a g = (a', None, advance n g) \<and> lsb_only a a' \<and>
           changed a a' \<subseteq> (\<lambda>i. draw_pos a (g i)) ` {..<n}"
proof -
  have "\<exists>m\<in>{1, 2, 3}. corrupt_step b (g i) = Inr (xor_at b (draw_pos a (g i)) m)"
    if b: "lsb_only a b" and i: "i < n" for b i
  proof -
    have "draw_ok b (g i)" using ok i b by (simp add: rng_ok_def draw_ok_shape)
    moreover have "3 \<le> channels b" using ch b by (simp add: lsb_only_def)
    ultimately obtain m where "m \<in> {1, 3}"
      "corrupt_step b (g i) = Inr (xor_at b (offset b (rand_y (g i)) (rand_x (g i)) (rand_c (g i))) m)"
      using corrupt_step_xor by blast
    then show ?thesis using offset_shape [OF b] by (auto simp: draw_pos_def)
  qed
  from gen_loop_flips [of a n corrupt_step g "draw_pos a", OF this]
  show ?thesis by (simp add: corrupt_loop_gen)
qed

lemma np_corrupt_loop_flips:
  assumes ok: "rng_ok (np_draw_ok a) n g" and ch: "3 \<le> channels a"
  shows "\<exists>a'. np_corrupt_loop n a g = (a', None, advance n g) \<and> lsb_only a a' \<and>
           changed a a' \<subseteq> (\<lambda>i. np_draw_pos a (g i)) ` {..<n}"
proof -
  have "\<exists>m\<in>{1, 2, 3}. np_corrupt_step b (g i) = Inr (xor_at b (np_draw_pos a (g i)) m)"
    if b: "lsb_only a b" and i: "i < n" for b i
  proof -
    have "np_draw_ok b (g i)" using ok i b by (simp add: rng_ok_def np_draw_ok_shape)
    moreover have "3 \<le> channels b" using ch b by (simp add: lsb_only_def)
    ultimately obtain m where "m \<in> {1, 2, 3}"
      "np_corrupt_step b (g i) = Inr (xor_at b (offset b (np_y (g i)) (np_x (g i)) (np_c (g i))) m)"
      using np_corrupt_step_xor by blast
    then show ?thesis using offset_shape [OF b] by (auto simp: np_draw_pos_def)
  qed
  from gen_loop_flips [of a n np_corrupt_step g "np_draw_pos a", OF this]
  show ?thesis by (simp add: np_corrupt_loop_gen)
qed




lemma corrupt_lsb_data_run:
  assumes "h r = Some a" "corrupt_loop (num_pixels_to_corrupt a rate) a g = (a', None, g')"
  shows "corrupt_lsb_data h g r rate = (h(r \<mapsto> a'), g', Inr r)"
  using assms by (simp add: corrupt_lsb_data_def)

lemma benchmark_corrupt_lsb_data_run:
  assumes "h r = Some a" "np_corrupt_loop (num_pixels_to_corrupt a rate) a g = (a', None, g')"
  shows "benchmark_corrupt_lsb_data h g r rate = (h(r \<mapsto> a'), g', Inr r)"
  using assms by (simp add: benchmark_corrupt_lsb_data_def)

lemma corrupt_pixels_run:
  assumes "h r = Some a" "np_corrupt_loop (num_pixels_to_corrupt a rate) a g = (a', None, g')"
  shows "corrupt_pixels h g r rate = (h(r \<mapsto> a'), g', Inr r)"
  using assms by (simp add: corrupt_pixels_def)

text \<open>
  Claim C8. For an RGB uint8 array and random outcomes within the ranges the library
  promises, every iteration of each helper replaces one selected value by its XOR with a
  mask in \<open>{1, 2, 3}\<close>; each helper (\<^verbatim>\<open>corrupt_lsb_data\<close> of the tests and of the
  benchmark, \<^verbatim>\<open>corrupt_pixels\<close> of the demo) returns normally, and the array it leaves has
  the shape of the input and agrees with it on bits 2 to 7 of every value.
\<close>

theorem corruption_changes_two_lsbs_only:
  assumes h: "h r = Some a" and wf: "wf_array a" and ch: "3 \<le> channels a"
    and g: "rng_ok (draw_ok a) (num_pixels_to_corrupt a rate) g"
    and gn: "rng_ok (np_draw_ok a) (num_pixels_to_corrupt a rate) gn"
  shows "(\<forall>d. draw_ok a d \<longrightarrow> (\<exists>m\<in>{1, 2, 3}. corrupt_step a d = Inr (xor_at a (draw_pos a d) m))) \<and>
         (\<forall>d. np_draw_ok a d \<longrightarrow> (\<exists>m\<in>{1, 2, 3}. np_corrupt_step a d = Inr (xor_at a (np_draw_pos a d) m))) \<and>
         (\<exists>a' g'. corrupt_lsb_data h g r rate = (h(r \<mapsto> a'), g', Inr r) \<and> high_bits_kept a a') \<and>
         (\<exists>a' g'. benchmark_corrupt_lsb_data h gn r rate = (h(r \<mapsto> a'), g', Inr r) \<and> high_bits_kept a a') \<and>
         (\<exists>a' g'. corrupt_pixels h gn r rate = (h(r \<mapsto> a'), g', Inr r) \<and> high_bits_kept a a')"
proof (intro conjI allI impI)
  fix d assume "draw_ok a d"
  then obtain m where "m \<in> {1, 3}" "corrupt_step a d = Inr (xor_at a (draw_pos a d) m)"
    using corrupt_step_xor [OF _ ch] unfolding draw_pos_def by blast
  then show "\<exists>m\<in>{1, 2, 3}. corrupt_step a d = Inr (xor_at a (draw_pos a d) m)" by auto
next
  fix d assume "np_draw_ok a d"
  then show "\<exists>m\<in>{1, 2, 3}. np_corrupt_step a d = Inr (xor_at a (np_draw_pos a d) m)"
    using np_corrupt_step_xor [OF _ ch] unfolding np_draw_pos_def by blast
next
  from corrupt_loop_flips [OF g ch] obtain a' where
    "corrupt_loop (num_pixels_to_corrupt a rate) a g = (a', None, advance (num_pixels_to_corrupt a rate) g)"
    "lsb_only a a'" by blast
  then show "\<exists>a' g'. corrupt_lsb_data h g r rate = (h(r \<mapsto> a'), g', Inr r) \<and> high_bits_kept a a'"
    using corrupt_lsb_data_run [where h = h and r = r, OF h] lsb_only_high_bits_kept by blast
next
  from np_corrupt_loop_flips [OF gn ch] obtain a' where
    "np_corrupt_loop (num_pixels_to_corrupt a rate) a gn = (a', None, advance (num_pixels_to_corrupt a rate) gn)"
    "lsb_only a a'" by blast
  then show "\<exists>a' g'. benchmark_corrupt_lsb_data h gn r rate = (h(r \<mapsto> a'), g', Inr r) \<and> high_bits_kept a a'"
    using benchmark_corrupt_lsb_data_run [where h = h and r = r, OF h] lsb_only_high_bits_kept by blast
next
  from np_corrupt_loop_flips [OF gn ch] obtain a' where
    "np_corrupt_loop (num_pixels_to_corrupt a rate) a gn = (a', None, advance (num_pixels_to_corrupt a rate) gn)"
    "lsb_only a a'" by blast
  then show "\<exists>a' g'. corrupt_pixels h gn r rate = (h(r \<mapsto> a'), g', Inr r) \<and> high_bits_kept a a'"
    using corrupt_pixels_run [where h = h and r = r, OF h] lsb_only_high_bits_kept by blast
qed

lemma sample_num_pixels: "num_pixels_to_corrupt sample_array (1 / 2) = 2"
  by (simp add: num_pixels_to_corrupt_def py_int_def sample_array_def)

lemma sample_rng_ok: "rng_ok (draw_ok sample_array) 2 sample_rng"
  by (simp add: rng_ok_def draw_ok_def sample_rng_def sample_array_def)

lemma sample_np_rng_ok: "rng_ok (np_draw_ok sample_array) 2 sample_np_rng"
  by (simp add: rng_ok_def np_draw_ok_def sample_np_rng_def sample_array_def)

lemma sample_wf: "wf_array sample_array" "3 \<le> channels sample_array"
  by (simp_all add: wf_array_def sample_array_def)

theorem corruption_changes_two_lsbs_only_witness:
  "[0 \<mapsto> sample_array] (0::ref) = Some sample_array \<and> wf_array sample_array \<and> 3 \<le> channels sample_array \<and>
   rng_ok (draw_ok sample_array) (num_pixels_to_corrupt sample_array (1 / 2)) sample_rng \<and>
   rng_ok (np_draw_ok sample_array) (num_pixels_to_corrupt sample_array (1 / 2)) sample_np_rng \<and>
   (\<exists>a' g'. corrupt_lsb_data [0 \<mapsto> sample_array] sample_rng 0 (1 / 2) = ([0 \<mapsto> a'], g', Inr 0) \<and>
      high_bits_kept sample_array a') \<and>
   (\<exists>a' g'. benchmark_corrupt_lsb_data [0 \<mapsto> sample_array] sample_np_rng 0 (1 / 2) = ([0 \<mapsto> a'], g', Inr 0) \<and>
      high_bits_kept sample_array a') \<and>
   (\<exists>a' g'. corrupt_pixels [0 \<mapsto> sample_array] sample_np_rng 0 (1 / 2) = ([0 \<mapsto> a'], g', Inr 0) \<and>
      high_bits_kept sample_array a')"
proof -
  have h: "[0 \<mapsto> sample_array] (0::nat) = Some sample_array" by simp
  have g: "rng_ok (draw_ok sample_array) (num_pixels_to_corrupt sample_array (1 / 2)) sample_rng"
    by (simp only: sample_num_pixels sample_rng_ok)
  have gn: "rng_ok (np_draw_ok sample_array) (num_pixels_to_corrupt sample_array (1 / 2)) sample_np_rng"
    by (simp only: sample_num_pixels sample_np_rng_ok)
  from corruption_changes_two_lsbs_only [where h = "[0 \<mapsto> sample_array]" and r = 0, OF h sample_wf g gn]
  show ?thesis using h sample_wf g gn by simp
qed




text \<open>
  The harnesses pass \<^verbatim>\<open>img_array.copy()\<close>: the flips land in the copy, and the array
  they keep is as it was.
\<close>

lemma corrupt_copy_keeps_original:
  assumes "h r = Some a" "r_new \<noteq> r"
  shows "fst (corrupt_lsb_data (array_copy h r r_new) g r_new rate) r = Some a"
    and "fst (benchmark_corrupt_lsb_data (array_copy h r r_new) gn r_new rate) r = Some a"
    and "fst (corrupt_pixels (array_copy h r r_new) gn r_new rate) r = Some a"
  using assms
  by (auto simp: corrupt_lsb_data_def benchmark_corrupt_lsb_data_def corrupt_pixels_def
      array_copy_def split: prod.splits option.splits)

section \<open>Properties of the Open MEOW action\<close>

lemma load_meow_data_calls:
  "load_meow_data m v p = Inr v' \<Longrightarrow> module_calls v' = module_calls v @ [StegLoad p]"
  "load_meow_data m v p = Inl (v', e) \<Longrightarrow> module_calls v' = module_calls v @ [StegLoad p]"
  by (auto simp: load_meow_data_def Let_def split: sum.splits option.splits if_splits prod.splits)

lemma update_ai_display_calls [simp]: "module_calls (update_ai_display m v) = module_calls v"
  by (simp add: update_ai_display_def split: attribute.splits)

lemma display_image_calls [simp]: "module_calls (display_image v i) = module_calls v"
  by (simp add: display_image_def split: option.splits)

text \<open>
  Extraction is attempted exactly for the paths that end in \<^verbatim>\<open>.meow\<close> in any letter case
  (provided the fallback loader returned an image).
\<close>

lemma open_meow_extraction_gate:
  assumes "file_path \<noteq> []" "smart_fallback_loader m file_path = Inr img"
  shows "new_calls v (open_meow m v file_path) =
           (if endswith (py_lower file_path) ''.meow''
            then [FallbackLoad file_path, StegLoad file_path] else [FallbackLoad file_path])"
proof (cases "endswith (py_lower file_path) ''.meow''")
  case False
  then show ?thesis using assms
    by (simp add: open_meow_def new_calls_def Let_def)
next
  case True
  let ?v1 = "v\<lparr>module_calls := module_calls v @ [FallbackLoad file_path], current_image := Some img\<rparr>"
  show ?thesis
  proof (cases "load_meow_data m ?v1 file_path")
    case (Inl a)
    obtain v2 e where a: "a = (v2, e)" by (cases a)
    from load_meow_data_calls(2) [OF Inl [unfolded a]] show ?thesis
      using assms True Inl a by (simp add: open_meow_def new_calls_def Let_def)
  next
    case (Inr v2)
    from load_meow_data_calls(1) [OF Inr] show ?thesis
      using assms True Inr by (simp add: open_meow_def new_calls_def Let_def)
  qed
qed

text \<open>
  For a path with another extension nothing but the image is touched: the stored
  metadata stay as they were, and the panels show what was stored before.
\<close>

lemma open_meow_other_extension:
  assumes "file_path \<noteq> []" "smart_fallback_loader m file_path = Inr img"
    and "\<not> endswith (py_lower file_path) ''.meow''"
  shows "canvas (open_meow m v file_path) = Some img"
    and "extracted_meow_data (open_meow m v file_path) = extracted_meow_data v"
    and "ai_metadata (open_meow m v file_path) = ai_metadata v"
    and "metadata_shown (open_meow m v file_path) =
           (case extracted_meow_data v of
              Obj d \<Rightarrow> if data_truthy m d then Some d else None | _ \<Rightarrow> None)"
  using assms
  by (auto simp: open_meow_def Let_def update_ai_display_def display_image_def split: attribute.splits)

lemma endswith_cat_meow: "endswith (py_lower ''cat.meow'') ''.meow''"
  by (simp add: endswith_def py_lower_def lower_char_def)

lemma endswith_photo_png: "\<not> endswith (py_lower ''photo.png'') ''.meow''"
  by (simp add: endswith_def py_lower_def lower_char_def)

lemma endswith_upper: "endswith (py_lower ''CAT.MeOW'') ''.meow''"
  by code_simp

text \<open>
  Claim C10, evaluated. In a viewer that has opened \<^verbatim>\<open>cat.meow\<close> (which carries
  hidden data), Open MEOW on \<^verbatim>\<open>photo.png\<close> makes no extraction call and puts the image
  of \<^verbatim>\<open>photo.png\<close> on the canvas, but the metadata panels show the data of
  \<^verbatim>\<open>cat.meow\<close>: the image is not shown with no metadata. From the initial state the
  panels are empty.
\<close>

theorem open_meow_stale_metadata:
  "(let v1 = open_meow sample_module initial_viewer ''cat.meow'';
        v2 = open_meow sample_module v1 ''photo.png''
    in new_calls v1 v2 = [FallbackLoad ''photo.png''] \<and>
       canvas v2 = Some ''image of photo.png'' \<and>
       metadata_shown v2 = Some ''data of cat.meow'' \<and>
       ai_metadata v2 = Some ''metadata from data of cat.meow'') \<and>
   metadata_shown (open_meow sample_module initial_viewer ''photo.png'') = None"
  by (simp add: open_meow_def Let_def sample_module_def initial_viewer_def load_meow_data_def
      update_ai_display_def display_image_def new_calls_def endswith_cat_meow endswith_photo_png)

section \<open>Properties of the harnesses' ECC switch\<close>



section \<open>Properties of the modelled codec\<close>

subsection \<open>Bits and the mapper\<close>

lemma length_nat_to_bits [simp]: "length (nat_to_bits k n) = k"
  by (induction k) simp_all

lemma bits_to_nat_lt: "bits_to_nat bs < 2 ^ length bs"
  by (induction bs) (auto simp: of_bool_def)

lemma nat_to_bits_high:
  "j \<le> k \<Longrightarrow> nat_to_bits j (m * 2 ^ k + r) = nat_to_bits j r"
proof (induction j)
  case 0
  then show ?case by simp
next
  case (Suc j)
  then obtain d where k: "k = Suc (j + d)" by (metis Suc_le_D add_Suc le_Suc_ex)
  have "(m * 2 ^ k + r) div 2 ^ j = 2 * (m * 2 ^ d) + r div 2 ^ j"
  proof -
    have "m * 2 ^ k + r = (2 * (m * 2 ^ d)) * 2 ^ j + r"
      by (simp add: k power_add mult.assoc mult.left_commute)
    then show ?thesis by (simp only: div_mult_self3) simp
  qed
  then have "odd ((m * 2 ^ k + r) div 2 ^ j) = odd (r div 2 ^ j)" by simp
  with Suc show ?case by simp
qed

lemma nat_to_bits_mod: "nat_to_bits k (n mod 2 ^ k) = nat_to_bits k n"
proof -
  have "nat_to_bits k n = nat_to_bits k ((n div 2 ^ k) * 2 ^ k + n mod 2 ^ k)"
    by (simp only: div_mult_mod_eq)
  also have "\<dots> = nat_to_bits k (n mod 2 ^ k)" by (rule nat_to_bits_high) simp
  finally show ?thesis by simp
qed

lemma nat_to_bits_bits_to_nat: "nat_to_bits (length bs) (bits_to_nat bs) = bs"
proof (induction bs)
  case Nil
  then show ?case by simp
next
  case (Cons b bs)
  have lt: "bits_to_nat bs < 2 ^ length bs" by (rule bits_to_nat_lt)
  have "(of_bool b * 2 ^ length bs + bits_to_nat bs) div 2 ^ length bs = of_bool b"
    using lt by simp
  moreover have "nat_to_bits (length bs) (of_bool b * 2 ^ length bs + bits_to_nat bs) = bs"
    using nat_to_bits_high [of "length bs" "length bs" "of_bool b" "bits_to_nat bs"] Cons by simp
  ultimately show ?case by simp
qed

lemma bits_to_nat_nat_to_bits: "bits_to_nat (nat_to_bits k n) = n mod 2 ^ k"
proof (induction k)
  case 0
  then show ?case by simp
next
  case (Suc k)
  have "n mod 2 ^ Suc k = n mod (2 ^ k * 2)" by (simp add: mult.commute)
  also have "\<dots> = 2 ^ k * (n div 2 ^ k mod 2) + n mod 2 ^ k" by (rule mod_mult2_eq)
  finally have "n mod 2 ^ Suc k = (n div 2 ^ k mod 2) * 2 ^ k + n mod 2 ^ k"
    by (simp add: mult.commute)
  moreover have "of_bool (odd (n div 2 ^ k)) = n div 2 ^ k mod 2"
    by (simp add: of_bool_def odd_iff_mod_2_eq_one)
  ultimately show ?case using Suc by simp
qed

lemma byte_roundtrip: "word_of_nat (bits_to_nat (byte_to_bits b)) = b"
proof -
  have "unat b < 2 ^ LENGTH(8)" by (rule unsigned_less)
  then have "unat b < 2 ^ 8" by simp
  then have "bits_to_nat (byte_to_bits b) = unat b"
    by (simp add: byte_to_bits_def bits_to_nat_nat_to_bits)
  then show ?thesis by simp
qed

lemma length_byte_to_bits [simp]: "length (byte_to_bits b) = 8"
  by (simp add: byte_to_bits_def)

lemma length_bytes_to_bits [simp]: "length (bytes_to_bits bs) = 8 * length bs"
  by (induction bs) (simp_all add: bytes_to_bits_def)

lemma bits_to_bytes_roundtrip:
  "bits_to_bytes (length bs) (bytes_to_bits bs @ rest) = bs"
proof (induction bs)
  case Nil
  then show ?case by simp
next
  case (Cons b bs)
  have "bytes_to_bits (b # bs) @ rest = byte_to_bits b @ (bytes_to_bits bs @ rest)"
    by (simp add: bytes_to_bits_def)
  then show ?case using Cons by (simp add: byte_roundtrip)
qed

lemma low_bits_set_low_bits:
  assumes "length g = k" "k \<le> 8"
  shows "low_bits k (set_low_bits k v g) = g"
proof -
  let ?x = "bits_to_nat g"
  have x: "?x < 2 ^ k" using bits_to_nat_lt [of g] assms by simp
  have "take_bit k (set_low_bits k v g) = take_bit k (word_of_nat ?x :: uint8)"
    by (simp add: set_low_bits_def take_bit_eq_mask bit.conj_disj_distrib2 and.assoc)
  also have "\<dots> = word_of_nat (take_bit k ?x)" by (simp add: take_bit_of_nat)
  also have "take_bit k ?x = ?x" using x by (simp add: take_bit_nat_eq_self)
  finally have tb: "take_bit k (set_low_bits k v g) = (word_of_nat ?x :: uint8)" .
  have "(2::nat) ^ k \<le> 2 ^ 8" using assms(2) by (intro power_increasing) simp_all
  with x have "?x < 256" by simp
  then have "unat (word_of_nat ?x :: uint8) = ?x" by (simp add: unat_of_nat)
  with tb have "unat (take_bit k (set_low_bits k v g)) = ?x" by simp
  then have "take_bit k (unat (set_low_bits k v g)) = ?x"
    by (simp only: unsigned_take_bit_eq)
  then have "unat (set_low_bits k v g) mod 2 ^ k = ?x"
    by (simp only: take_bit_eq_mod)
  then have "nat_to_bits k (unat (set_low_bits k v g)) = nat_to_bits k ?x"
    using nat_to_bits_mod [of k "unat (set_low_bits k v g)"] by simp
  then show ?thesis using assms nat_to_bits_bits_to_nat [of g] by (simp add: low_bits_def)
qed

lemma length_pad_group: "length g \<le> k \<Longrightarrow> length (pad_group k g) = k"
  by (simp add: pad_group_def)

lemma take_pad_group: "n \<le> length g \<Longrightarrow> take n (pad_group k g) = take n g"
  by (simp add: pad_group_def)

lemma length_write_channels [simp]: "length (write_channels k vs bits) = length vs"
  by (induction vs arbitrary: bits) simp_all

lemma take_split: "take n bits = take n (take k bits) @ take (n - k) (drop k bits)"
proof (cases "n \<le> k")
  case True
  then show ?thesis by (simp add: min_def)
next
  case False
  then have "n = k + (n - k)" by simp
  then have "take n bits = take k bits @ take (n - k) (drop k bits)"
    by (metis take_add)
  with False show ?thesis by (simp add: min_def)
qed

lemma read_write_channels:
  assumes "0 < k" "k \<le> 8" "length bits \<le> k * length vs" "n \<le> length bits"
  shows "read_channels k (write_channels k vs bits) n = take n bits"
  using assms(3,4)
proof (induction vs arbitrary: bits n)
  case Nil
  then show ?case by simp
next
  case (Cons v vs)
  show ?case
  proof (cases "n = 0")
    case True
    then show ?thesis by (cases "bits = []") simp_all
  next
    case nz: False
    with Cons.prems have ne: "bits \<noteq> []" by auto
    let ?g = "pad_group k (take k bits)"
    have lg: "length ?g = k" by (intro length_pad_group) simp
    have low: "low_bits k (set_low_bits k v ?g) = ?g" using lg assms(2) by (rule low_bits_set_low_bits)
    have tg: "take n ?g = take n (take k bits)"
    proof (cases "n \<le> k")
      case True
      with Cons.prems(2) have "n \<le> length (take k bits)" by simp
      then show ?thesis by (rule take_pad_group)
    next
      case False
      with Cons.prems(2) have "length (take k bits) = k" by simp
      then show ?thesis by (simp add: pad_group_def)
    qed
    have "length (drop k bits) \<le> k * length vs" using Cons.prems(1) by simp
    moreover have "n - k \<le> length (drop k bits)" using Cons.prems(2) by simp
    ultimately have "read_channels k (write_channels k vs (drop k bits)) (n - k) = take (n - k) (drop k bits)"
      by (rule Cons.IH)
    then have "read_channels k (write_channels k (v # vs) bits) n =
                 take n (take k bits) @ take (n - k) (drop k bits)"
      using ne nz low tg by simp
    then show ?thesis using take_split [of n bits k] by simp
  qed
qed

lemma capacity_data:
  "carrier_ok img \<Longrightarrow> capacity img k = k * length (data img)"
  by (simp add: carrier_ok_def wf_array_def capacity_def)

lemma mapper_read_write:
  assumes "carrier_ok img" "0 < k" "k \<le> 8" "mapper_write k img bits = Inr img'"
    and "n \<le> length bits"
  shows "mapper_read k img' n = Some (take n bits)"
proof -
  from assms(4) have le: "length bits \<le> capacity img k"
    and img': "img' = img\<lparr>data := write_channels k (data img) bits\<rparr>"
    by (auto simp: mapper_write_def split: if_splits)
  have "capacity img' k = capacity img k" by (simp add: img' capacity_def)
  moreover have "length bits \<le> k * length (data img)" using le assms(1) by (simp add: capacity_data)
  ultimately show ?thesis
    using le assms(5) read_write_channels [OF assms(2,3), of bits "data img" n]
    by (simp add: mapper_read_def img')
qed

lemma bytes_to_bits_append: "bytes_to_bits (xs @ ys) = bytes_to_bits xs @ bytes_to_bits ys"
  by (simp add: bytes_to_bits_def)

lemma length_bits_to_bytes [simp]: "length (bits_to_bytes n bits) = n"
  by (induction n arbitrary: bits) simp_all

lemma byte_to_bits_of_bits:
  assumes "length g = 8"
  shows "byte_to_bits (word_of_nat (bits_to_nat g)) = g"
proof -
  have "bits_to_nat g < 2 ^ 8" using bits_to_nat_lt [of g] assms by simp
  then have "unat (word_of_nat (bits_to_nat g) :: uint8) = bits_to_nat g"
    by (simp add: unat_of_nat)
  then show ?thesis using nat_to_bits_bits_to_nat [of g] assms by (simp add: byte_to_bits_def)
qed

lemma bytes_to_bits_bits_to_bytes:
  "length bits = 8 * n \<Longrightarrow> bytes_to_bits (bits_to_bytes n bits) = bits"
proof (induction n arbitrary: bits)
  case 0
  then show ?case by (simp add: bytes_to_bits_def)
next
  case (Suc n)
  have "length (take 8 bits) = 8" using Suc.prems by simp
  then have h: "byte_to_bits (word_of_nat (bits_to_nat (take 8 bits))) = take 8 bits"
    by (rule byte_to_bits_of_bits)
  have "length (drop 8 bits) = 8 * n" using Suc.prems by simp
  then have t: "bytes_to_bits (bits_to_bytes n (drop 8 bits)) = drop 8 bits" by (rule Suc.IH)
  have "bytes_to_bits (bits_to_bytes (Suc n) bits) =
          byte_to_bits (word_of_nat (bits_to_nat (take 8 bits))) @ bytes_to_bits (bits_to_bytes n (drop 8 bits))"
    by (simp add: bytes_to_bits_def)
  then show ?case using h t by simp
qed

subsection \<open>The error-correcting codec without corruption\<close>

lemma chunks_Nil [simp]: "chunks n [] = []"
  by (simp add: chunks.simps)

lemma chunks_step: "n \<noteq> 0 \<Longrightarrow> xs \<noteq> [] \<Longrightarrow> chunks n xs = take n xs # chunks n (drop n xs)"
  by (subst chunks.simps) simp

lemma chunks_append:
  assumes "x \<noteq> []" "length x \<le> n" "length x = n \<or> rest = []"
  shows "chunks n (x @ rest) = x # chunks n rest"
proof -
  have n: "n \<noteq> 0" using assms(1,2) by (cases x) auto
  have ne: "x @ rest \<noteq> []" using assms(1) by simp
  from assms(3) show ?thesis
  proof
    assume "length x = n"
    then show ?thesis using chunks_step [OF n ne] by simp
  next
    assume "rest = []"
    then show ?thesis using chunks_step [OF n ne] assms(2) by simp
  qed
qed

lemma decode_encode_blocks:
  assumes ok: "rs_ok p code" and p: "p < 255"
  shows "decode_blocks (rs_decode code) (chunks 255 (concat (map (rs_encode code) (chunks (255 - p) d))))
           = Some d"
proof (induction "255 - p" d rule: chunks.induct)
  case (1 d)
  show ?case
  proof (cases "d = []")
    case True
    then show ?thesis by simp
  next
    case False
    let ?n = "255 - p"
    let ?b = "take ?n d"
    let ?rest = "concat (map (rs_encode code) (chunks ?n (drop ?n d)))"
    have n: "?n \<noteq> 0" using p by simp
    have b: "?b \<noteq> []" "length ?b + p \<le> 255" using False p by auto
    with ok have len: "length (rs_encode code ?b) = length ?b + p"
      and dec: "rs_decode code (rs_encode code ?b) = Some ?b"
      unfolding rs_ok_def by blast+
    have ne: "rs_encode code ?b \<noteq> []" using len b(1) by (metis add_is_0 length_0_conv)
    have le: "length (rs_encode code ?b) \<le> 255" using len b(2) by simp
    have full: "length (rs_encode code ?b) = 255 \<or> ?rest = []"
    proof (cases "?n \<le> length d")
      case True
      then have "length ?b = ?n" by simp
      then show ?thesis using len p by simp
    next
      case False
      then have "drop ?n d = []" by simp
      then show ?thesis by simp
    qed
    have split: "chunks 255 (rs_encode code ?b @ ?rest) = rs_encode code ?b # chunks 255 ?rest"
      using ne le full by (rule chunks_append)
    have "\<not> (?n = 0 \<or> d = [])" using n False by simp
    then have IH: "decode_blocks (rs_decode code) (chunks 255 ?rest) = Some (drop ?n d)"
      by (rule "1.hyps")
    have "chunks ?n d = ?b # chunks ?n (drop ?n d)" using n False by (rule chunks_step)
    then have "concat (map (rs_encode code) (chunks ?n d)) = rs_encode code ?b @ ?rest"
      by simp
    then show ?thesis using split dec IH by simp
  qed
qed

lemma parity_symbols_small: "parity_symbols level < 255"
  by (cases level) simp_all

lemma ecc_decode_encode:
  assumes "level \<noteq> NoRedundancy \<longrightarrow> rs_ok (parity_symbols level) (lib (parity_symbols level))"
  shows "ecc_decode lib level (ecc_encode lib level d) = Inr d"
proof (cases "level = NoRedundancy")
  case True
  then show ?thesis by (simp add: ecc_decode_def ecc_encode_def)
next
  case False
  with assms have "rs_ok (parity_symbols level) (lib (parity_symbols level))" by simp
  from decode_encode_blocks [OF this parity_symbols_small, of d] False
  show ?thesis by (simp add: ecc_decode_def ecc_encode_def)
qed

lemma checksum_code_ok: "rs_ok p (checksum_code p)"
  by (simp add: rs_ok_def checksum_code_def)

subsection \<open>The payload codec: reading back what was written\<close>

lemma get_put_nat [simp]: "get_nat (put_nat n @ r) = Some (n, r)"
proof (induction n rule: put_nat.induct)
  case (1 n)
  show ?case
  proof (cases "n < 128")
    case True
    then have "unat (word_of_nat n :: uint8) = n" by (simp add: unat_of_nat)
    with True show ?thesis by (subst put_nat.simps) simp
  next
    case False
    have lt: "128 + n mod 128 < 256" by simp
    have "unat (word_of_nat (128 + n mod 128) :: uint8) = (128 + n mod 128) mod 2 ^ LENGTH(8)"
      by (rule unat_of_nat)
    also have "\<dots> = 128 + n mod 128" using lt by simp
    finally have u: "unat (word_of_nat (128 + n mod 128) :: uint8) = 128 + n mod 128" .
    have IH: "get_nat (put_nat (n div 128) @ r) = Some (n div 128, r)"
      using "1.IH" False by simp
    have "put_nat n = word_of_nat (128 + n mod 128) # put_nat (n div 128)"
      using False by (subst put_nat.simps) simp
    then show ?thesis using u IH by simp
  qed
qed

lemma get_put_int [simp]: "get_int (put_int i @ r) = Some (i, r)"
  by (simp add: put_int_def)

lemma get_put_bool [simp]: "get_bool (put_bool b @ r) = Some (b, r)"
  by (simp add: put_bool_def)

lemma get_put_rat [simp]: "get_rat (put_rat q @ r) = Some (q, r)"
proof -
  obtain n d where nd: "quotient_of q = (n, d)" by (cases "quotient_of q")
  then have d: "0 < d" and q: "q = of_int n / of_int d"
    by (simp_all add: quotient_of_denom_pos quotient_of_div)
  from d have "nat d \<noteq> 0" "(of_nat (nat d) :: rat) = of_int d" by simp_all
  then show ?thesis using nd q by (simp add: put_rat_def get_rat_def)
qed

lemma get_many_concat:
  assumes "\<And>x r. g (put x @ r) = Some (x, r)"
  shows "get_many g (length xs) (concat (map put xs) @ r) = Some (xs, r)"
  by (induction xs) (simp_all add: assms)

lemma get_put_list:
  assumes "\<And>x r. g (put x @ r) = Some (x, r)"
  shows "get_list g (put_list put xs @ r) = Some (xs, r)"
  using get_many_concat [of g put xs r, OF assms]
  by (simp add: get_list_def put_list_def)

lemma get_put_char [simp]: "get_char (put_char c @ r) = Some (c, r)"
proof -
  have "(of_char c :: nat) < 256" by simp
  then have "unat (word_of_nat (of_char c) :: uint8) = of_char c" by (simp add: unat_of_nat)
  then show ?thesis by (simp add: put_char_def)
qed

lemma get_put_string [simp]: "get_string (put_string s @ r) = Some (s, r)"
  unfolding get_string_def put_string_def by (rule get_put_list) simp

lemma get_put_rat_list [simp]: "get_list get_rat (put_list put_rat qs @ r) = Some (qs, r)"
  by (rule get_put_list) simp

lemma get_put_string_list [simp]: "get_list get_string (put_list put_string ss @ r) = Some (ss, r)"
  by (rule get_put_list) simp

lemma get_put_entry:
  assumes "\<And>x r. g (put x @ r) = Some (x, r)"
  shows "get_entry g (put_entry put e @ r) = Some (e, r)"
  by (simp add: get_entry_def put_entry_def assms)

lemma get_put_dict:
  assumes "\<And>x r. g (put x @ r) = Some (x, r)" and "canonical_dict d"
  shows "get_dict g (put_dict put d @ r) = Some (d, r)"
proof -
  have "sort_key fst d = d" using assms(2) by (simp add: canonical_dict_def sort_key_id_if_sorted)
  moreover have "get_list (get_entry g) (put_list (put_entry put) d @ r) = Some (d, r)"
    by (rule get_put_list) (rule get_put_entry [of g put, OF assms(1)])
  ultimately show ?thesis by (simp add: get_dict_def put_dict_def)
qed

lemma get_put_feature_value [simp]:
  "get_feature_value (put_feature_value v @ r) = Some (v, r)"
  by (cases v) (simp_all add: put_feature_value_def)

lemma get_put_primitive [simp]: "get_primitive (put_primitive v @ r) = Some (v, r)"
  by (cases v) (simp_all add: put_primitive_def)

lemma get_put_option:
  assumes "\<And>v. x = Some v \<Longrightarrow> g (put v @ r) = Some (v, r)"
  shows "get_option g (put_option put x @ r) = Some (x, r)"
  using assms by (cases x) (simp_all add: put_option_def)

lemma get_put_box [simp]: "get_box (put_box b @ r) = Some (b, r)"
  by (simp add: get_box_def put_box_def)

lemma get_put_box_list [simp]: "get_list get_box (put_list put_box bs @ r) = Some (bs, r)"
  by (rule get_put_list) simp

lemma get_put_annotations:
  assumes "canonical_dict (preprocessing_params a)"
  shows "get_annotations (put_annotations a @ r) = Some (a, r)"
proof -
  have "get_dict get_feature_value (put_dict put_feature_value (preprocessing_params a) @ r') =
          Some (preprocessing_params a, r')" for r'
    using assms by (intro get_put_dict) simp_all
  then show ?thesis by (simp add: get_annotations_def put_annotations_def)
qed

lemma get_put_generation:
  assumes "canonical_dict (generation_settings g)"
  shows "get_generation (put_generation g @ r) = Some (g, r)"
proof -
  have "get_dict get_primitive (put_dict put_primitive (generation_settings g) @ r') =
          Some (generation_settings g, r')" for r'
    using assms by (intro get_put_dict) simp_all
  then show ?thesis by (simp add: get_generation_def put_generation_def)
qed

lemma get_put_payload:
  assumes "valid_payload p"
  shows "get_payload (put_payload p @ r) = Some (p, r)"
proof -
  have f: "get_dict get_feature_value (put_dict put_feature_value (features p) @ r') =
          Some (features p, r')" for r'
    using assms by (intro get_put_dict) (simp_all add: valid_payload_def)
  have a: "get_annotations (put_annotations (annotations p) @ r') = Some (annotations p, r')" for r'
    using assms by (intro get_put_annotations) (simp add: valid_payload_def)
  have m: "get_dict get_rat (put_dict put_rat (attention_maps p) @ r') =
          Some (attention_maps p, r')" for r'
    using assms by (intro get_put_dict) (simp_all add: valid_payload_def)
  have g: "get_option get_generation (put_option put_generation (generation p) @ r') =
          Some (generation p, r')" for r'
  proof (rule get_put_option)
    fix v assume "generation p = Some v"
    with assms have "canonical_dict (generation_settings v)"
      by (simp add: valid_payload_def valid_generation_def)
    then show "get_generation (put_generation v @ r') = Some (v, r')" by (rule get_put_generation)
  qed
  show ?thesis by (simp add: get_payload_def put_payload_def f a m g)
qed

lemma deserialize_serialize:
  assumes "valid_payload p"
  shows "deserialize (serialize p) = Inr p"
  using get_put_payload [OF assms, of "[]"] assms
  by (simp add: deserialize_def serialize_def valid_payload_def)

subsection \<open>Header framing\<close>

lemma length_be32 [simp]: "length (be32 n) = 4"
  by (simp add: be32_def)

lemma be32_decode_be32: "n < 2 ^ 32 \<Longrightarrow> be32_decode (be32 n) = n"
proof -
  assume n: "n < 2 ^ 32"
  have "bytes_to_bits (bits_to_bytes 4 (nat_to_bits 32 n)) = nat_to_bits 32 n"
    by (rule bytes_to_bits_bits_to_bytes) simp
  then have "be32_decode (be32 n) = n mod 2 ^ 32"
    by (simp add: be32_decode_def be32_def bits_to_nat_nat_to_bits)
  with n show ?thesis by simp
qed

lemma chunks_single: "xs \<noteq> [] \<Longrightarrow> length xs \<le> n \<Longrightarrow> chunks n xs = [xs]"
  using chunks_append [of xs n "[]"] by simp

lemma length_header_codeword:
  assumes "library_ok lib level" "length h = 4"
  shows "length (ecc_encode lib level h) = header_codeword_len level"
proof (cases "level = NoRedundancy")
  case True
  with assms(2) show ?thesis by (simp add: ecc_encode_def header_codeword_len_def)
next
  case False
  let ?p = "parity_symbols level"
  have ok: "rs_ok ?p (lib ?p)" using assms(1) False by (simp add: library_ok_def)
  have p: "?p \<le> 64" by (cases level) simp_all
  have ne: "h \<noteq> []" using assms(2) by auto
  have "chunks (255 - ?p) h = [h]" using ne assms(2) p by (intro chunks_single) simp_all
  moreover have "length (rs_encode (lib ?p) h) = length h + ?p"
    using ok ne assms(2) p unfolding rs_ok_def by simp
  ultimately show ?thesis using False assms(2)
    by (simp add: ecc_encode_def header_codeword_len_def)
qed

lemma ecc_roundtrip:
  assumes "library_ok lib level"
  shows "ecc_decode lib level (ecc_encode lib level d) = Inr d"
  using assms by (intro ecc_decode_encode) (simp add: library_ok_def)

subsection \<open>Extraction after embedding\<close>

lemma extract_stages_embed:
  assumes img: "carrier_ok img" and cfg: "config_ok cfg"
    and p: "valid_payload p"
    and lib: "library_ok lib (effective_level cfg)"
    and len: "length (ecc_encode lib (effective_level cfg) (serialize p)) < 2 ^ 32"
    and emb: "embed lib cfg img p = Inr img'"
  shows "extract_stages lib cfg img' = Inr p"
proof -
  let ?level = "effective_level cfg"
  let ?k = "bitsPerChannel cfg"
  let ?hlen = "header_codeword_len ?level"
  let ?body = "ecc_encode lib ?level (serialize p)"
  let ?n = "length ?body"
  let ?header = "ecc_encode lib ?level (be32 ?n)"
  let ?bits = "bytes_to_bits (?header @ ?body)"
  have k: "0 < ?k" "?k \<le> 8" using cfg by (simp_all add: config_ok_def)
  have hl: "length ?header = ?hlen" using lib by (rule length_header_codeword) simp
  have w: "mapper_write ?k img ?bits = Inr img'"
    using emb by (simp add: embed_def frame_def Let_def)
  have bits: "?bits = bytes_to_bits ?header @ bytes_to_bits ?body"
    by (rule bytes_to_bits_append)
  have lb: "length ?bits = 8 * (?hlen + ?n)" using hl by simp
  have "8 * ?hlen \<le> length ?bits" using lb by simp
  with mapper_read_write [OF img k w]
  have "mapper_read ?k img' (8 * ?hlen) = Some (take (8 * ?hlen) ?bits)" by blast
  moreover have "take (8 * ?hlen) ?bits = bytes_to_bits ?header" using hl by (simp add: bits)
  ultimately have r1: "mapper_read ?k img' (8 * ?hlen) = Some (bytes_to_bits ?header)" by simp
  have b1: "bits_to_bytes ?hlen (bytes_to_bits ?header) = ?header"
    using bits_to_bytes_roundtrip [of ?header "[]"] hl by simp
  have d1: "ecc_decode lib ?level ?header = Inr (be32 ?n)" using lib by (rule ecc_roundtrip)
  have n: "be32_decode (be32 ?n) = ?n" using len by (rule be32_decode_be32)
  have "8 * (?hlen + ?n) \<le> length ?bits" using lb by simp
  with mapper_read_write [OF img k w]
  have "mapper_read ?k img' (8 * (?hlen + ?n)) = Some (take (8 * (?hlen + ?n)) ?bits)" by blast
  then have r2: "mapper_read ?k img' (8 * (?hlen + ?n)) = Some ?bits" using lb by simp
  have "drop (8 * ?hlen) ?bits = bytes_to_bits ?body" using hl by (simp add: bits)
  then have b2: "bits_to_bytes ?n (drop (8 * ?hlen) ?bits) = ?body"
    using bits_to_bytes_roundtrip [of ?body "[]"] by simp
  have d2: "ecc_decode lib ?level ?body = Inr (serialize p)" using lib by (rule ecc_roundtrip)
  have ds: "deserialize (serialize p) = Inr p" using p by (rule deserialize_serialize)
  show ?thesis
    unfolding extract_stages_def Let_def
    by (simp only: r1 b1 d1 n r2 b2 d2 ds length_be32 option.case sum.case) simp
qed

lemma embed_succeeds:
  assumes "length (bytes_to_bits (frame lib (effective_level cfg) p)) \<le> capacity img (bitsPerChannel cfg)"
  shows "\<exists>img'. embed lib cfg img p = Inr img'"
  using assms by (simp add: embed_def mapper_write_def)

subsection \<open>Concrete values\<close>

lemma scenario_payload_valid: "valid_payload scenario_payload"
  by (simp add: valid_payload_def scenario_payload_def no_annotations_def supported_version_def
      canonical_dict_def)

lemma dated_payload_valid: "valid_payload dated_payload"
  by (simp add: valid_payload_def dated_payload_def scenario_payload_def no_annotations_def
      supported_version_def canonical_dict_def)



lemma plain_carrier_ok: "carrier_ok (plain_carrier h w)"
  by (simp add: carrier_ok_def wf_array_def plain_carrier_def)

lemma capacity_plain_carrier: "capacity (plain_carrier h w) k = h * w * 3 * k"
  by (simp add: capacity_def plain_carrier_def)

lemma library_ok_checksum: "library_ok checksum_code level"
  by (simp add: library_ok_def checksum_code_ok)

lemma length_frame_raw [simp]:
  "length (frame lib NoRedundancy p) = 4 + length (serialize p)"
  by (simp add: frame_def ecc_encode_def Let_def)

lemma length_checksum_high_scenario:
  "length (ecc_encode checksum_code High (serialize scenario_payload)) = 96"
  by code_simp

lemma length_frame_high_scenario: "length (frame checksum_code High scenario_payload) = 164"
proof -
  have "length (ecc_encode checksum_code High (be32 n)) = 68" for n
    using length_header_codeword [OF library_ok_checksum, of "be32 n" High]
    by (simp add: header_codeword_len_def)
  then show ?thesis by (simp add: frame_def Let_def length_checksum_high_scenario)
qed

section \<open>The claims about the modelled codec\<close>

text \<open>
  Claim C1. Round trip: for every valid payload whose encoded body fits the length header,
  every configuration with 1 to 8 bits per channel, every library that decodes what it
  encoded, and every RGB carrier with at least as many bits as the framed stream, embedding
  succeeds and extracting from the image it returns gives back the payload; and
  deserializing a serialized valid payload gives back the payload.
\<close>

theorem round_trip:
  assumes "carrier_ok img" and "config_ok cfg" and "valid_payload p"
    and "library_ok lib (effective_level cfg)"
    and "length (ecc_encode lib (effective_level cfg) (serialize p)) < 2 ^ 32"
    and "length (bytes_to_bits (frame lib (effective_level cfg) p)) \<le> capacity img (bitsPerChannel cfg)"
  shows "(\<exists>img'. embed lib cfg img p = Inr img' \<and> extract_payload lib cfg img' = Some p) \<and>
         deserialize (serialize p) = Inr p"
proof -
  from embed_succeeds [OF assms(6)] obtain img' where e: "embed lib cfg img p = Inr img'" ..
  from extract_stages_embed [OF assms(1-5) e] have "extract_payload lib cfg img' = Some p"
    by (simp add: extract_payload_def)
  with e deserialize_serialize [OF assms(3)] show ?thesis by blast
qed

theorem round_trip_witness:
  "carrier_ok (plain_carrier 200 200) \<and> config_ok high_config \<and> valid_payload scenario_payload \<and>
   library_ok checksum_code (effective_level high_config) \<and>
   length (ecc_encode checksum_code (effective_level high_config) (serialize scenario_payload)) < 2 ^ 32 \<and>
   length (bytes_to_bits (frame checksum_code (effective_level high_config) scenario_payload))
     \<le> capacity (plain_carrier 200 200) (bitsPerChannel high_config) \<and>
   (\<exists>img'. embed checksum_code high_config (plain_carrier 200 200) scenario_payload = Inr img' \<and>
           extract_payload checksum_code high_config img' = Some scenario_payload) \<and>
   deserialize (serialize scenario_payload) = Inr scenario_payload"
proof -
  have lvl: "effective_level high_config = High" by (simp add: effective_level_def high_config_def)
  have bpc: "bitsPerChannel high_config = 2" by (simp add: high_config_def)
  have h1: "carrier_ok (plain_carrier 200 200)" by (rule plain_carrier_ok)
  have h2: "config_ok high_config" by (simp add: config_ok_def high_config_def)
  have h4: "library_ok checksum_code (effective_level high_config)" by (rule library_ok_checksum)
  have h5: "length (ecc_encode checksum_code (effective_level high_config) (serialize scenario_payload)) < 2 ^ 32"
    by (simp add: lvl length_checksum_high_scenario)
  have h6: "length (bytes_to_bits (frame checksum_code (effective_level high_config) scenario_payload))
      \<le> capacity (plain_carrier 200 200) (bitsPerChannel high_config)"
    by (simp add: lvl bpc length_frame_high_scenario capacity_plain_carrier)
  note r = round_trip [OF h1 h2 scenario_payload_valid h4 h5 h6]
  show ?thesis
    by (intro conjI h1 h2 scenario_payload_valid h4 h5 h6 r [THEN conjunct1] r [THEN conjunct2])
qed















end
